theory Spec2Isabelle
  imports Complex_Main
begin

section \<open>Tensors, errors and indexing\<close>

text \<open>
  The module \<^verbatim>\<open>src/model/crfV1.py\<close> computes on PyTorch tensors.  A tensor of rank
  one, two or three is a list, a list of rows, or a list of matrices; its entries are
  real numbers, so every arithmetic operation is the exact one (no rounding, no
  infinities, no NaN).  Tags are Python integers (\<^typ>\<open>int\<close>); a mask holds booleans.  The
  variables \<^verbatim>\<open>mask\<close> and \<^verbatim>\<open>trans\<close> of the code are written \<open>msk\<close> and \<open>trns\<close>: HOL has
  constants of those names.

  Tensors are rectangular and the shapes of the arguments of one call agree; lists do not
  enforce that, so the theorems state it as the predicates \<open>matrix_shape\<close> and
  \<open>cube_shape\<close>.  An index that comes from the data (a gold tag, a sampled tag) is
  checked where the code uses it, and the failure is the value \<open>Inl IndexError\<close>.
\<close>

datatype error = IndexError | ValueError

definition bind_err :: "error + 'a \<Rightarrow> ('a \<Rightarrow> error + 'b) \<Rightarrow> error + 'b" where
  "bind_err m f = (case m of Inl e \<Rightarrow> Inl e | Inr x \<Rightarrow> f x)"

fun sequence_err :: "(error + 'a) list \<Rightarrow> error + 'a list" where
  "sequence_err [] = Inr []"
| "sequence_err (m # ms) =
     bind_err m (\<lambda>x. bind_err (sequence_err ms) (\<lambda>xs. Inr (x # xs)))"

text \<open>
  Indexing one dimension with an integer: a negative index counts from the end, an index
  outside \<open>[-n, n)\<close> raises IndexError.
\<close>

definition py_index :: "'a list \<Rightarrow> int \<Rightarrow> error + 'a" where
  "py_index xs i =
     (if 0 \<le> i \<and> i < int (length xs) then Inr (xs ! nat i)
      else if i < 0 \<and> - int (length xs) \<le> i then Inr (xs ! nat (int (length xs) + i))
      else Inl IndexError)"

text \<open>\<^verbatim>\<open>t[idx]\<close> for an index tensor \<open>idx\<close>: one row of \<open>t\<close> per index.\<close>

definition index_rows :: "'a list \<Rightarrow> int list \<Rightarrow> error + 'a list" where
  "index_rows t idx = sequence_err (map (py_index t) idx)"

text \<open>\<^verbatim>\<open>t[idx1, idx2]\<close> for two index tensors: the entries at the paired positions.\<close>

definition index_pairs :: "'a list list \<Rightarrow> int list \<Rightarrow> int list \<Rightarrow> error + 'a list" where
  "index_pairs t idx1 idx2 =
     sequence_err (map2 (\<lambda>a b. bind_err (py_index t a) (\<lambda>row. py_index row b)) idx1 idx2)"

definition matrix_shape :: "'a list list \<Rightarrow> nat \<Rightarrow> nat \<Rightarrow> bool" where
  "matrix_shape M r c \<longleftrightarrow> length M = r \<and> list_all (\<lambda>row. length row = c) M"

definition cube_shape :: "'a list list list \<Rightarrow> nat \<Rightarrow> nat \<Rightarrow> nat \<Rightarrow> bool" where
  "cube_shape T a r c \<longleftrightarrow> length T = a \<and> list_all (\<lambda>M. matrix_shape M r c) T"

definition ncols :: "'a list list \<Rightarrow> nat" where
  "ncols M = (case M of [] \<Rightarrow> 0 | r # _ \<Rightarrow> length r)"

text \<open>\<^verbatim>\<open>t.transpose(0, 1)\<close> and \<^verbatim>\<open>t.T\<close>: the first two dimensions exchanged.\<close>

definition transpose01 :: "'a list list \<Rightarrow> 'a list list" where
  "transpose01 M = map (\<lambda>j. map (\<lambda>row. row ! j) M) [0..<ncols M]"

text \<open>\<^verbatim>\<open>X @ Y\<close>, and \<^verbatim>\<open>torch.bmm\<close>, the product of each pair of one batch.\<close>

definition matmul :: "real list list \<Rightarrow> real list list \<Rightarrow> real list list" where
  "matmul X Y =
     map (\<lambda>row. map (\<lambda>j. sum_list (map (\<lambda>k. row ! k * Y ! k ! j) [0..<length Y]))
                     [0..<ncols Y]) X"

definition bmm :: "real list list list \<Rightarrow> real list list list \<Rightarrow> real list list list" where
  "bmm Xs Ys = map2 matmul Xs Ys"

definition relu :: "real \<Rightarrow> real" where
  "relu x = max 0 x"

section \<open>The module and its transition energy\<close>

text \<open>
  The fields \<^verbatim>\<open>__init__\<close> stores.  \<open>W_weight\<close> and \<open>W_bias\<close> are the parameters of
  \<^verbatim>\<open>self.W = nn.Linear(emb_dim, emb_dim)\<close>; the constructor draws them at random, here
  they are arguments.  The field \<^verbatim>\<open>device\<close> has no effect on the values.
\<close>

record crf =
  num_tags :: nat
  batch_first :: bool
  beam_size :: nat
  neg_nums :: nat
  W_weight :: "real list list"
  W_bias :: "real list"

text \<open>
  \<^verbatim>\<open>CRF.__init__\<close>: it stores its arguments and checks nothing, so it returns a module
  for every argument.  The parameters of the linear layer stand where the code has
  \<^verbatim>\<open>emb_dim\<close>.
\<close>

definition CRF_init ::
  "nat \<Rightarrow> real list list \<Rightarrow> real list \<Rightarrow> nat \<Rightarrow> nat \<Rightarrow> bool \<Rightarrow> error + crf" where
  "CRF_init n_tags weight bias beam negs bf =
     Inr \<lparr>num_tags = n_tags, batch_first = bf, beam_size = beam, neg_nums = negs,
          W_weight = weight, W_bias = bias\<rparr>"

text \<open>\<^verbatim>\<open>self.W(X)\<close>, that is \<^verbatim>\<open>X @ weight.T + bias\<close>, on the rows of \<open>X\<close>.\<close>

definition linear :: "crf \<Rightarrow> real list list \<Rightarrow> real list list" where
  "linear self X =
     map (\<lambda>row. map2 (+) row (W_bias self)) (matmul X (transpose01 (W_weight self)))"

text \<open>
  \<^verbatim>\<open>CRF.transition\<close>, the pairwise form: \<open>tag1\<close> and \<open>tag2\<close> hold one tag per batch
  element.  \<open>emb1\<close> is a batch of \<open>1 \<times> d\<close> matrices, \<open>emb2\<close> a batch of \<open>d \<times> 1\<close>
  matrices, and \<^verbatim>\<open>squeeze\<close> reads the one entry of each product.
\<close>

definition transition ::
  "crf \<Rightarrow> int list \<Rightarrow> int list \<Rightarrow> real list list \<Rightarrow> real list list \<Rightarrow> error + real list" where
  "transition self tag1 tag2 full_road_emb A_list =
     bind_err (index_rows full_road_emb tag1) (\<lambda>rows1.
     bind_err (index_rows full_road_emb tag2) (\<lambda>rows2.
       let emb1 = map (\<lambda>v. [v]) (linear self rows1);
           emb2 = map (\<lambda>v. map (\<lambda>x. [x]) v) rows2;
           r = map (\<lambda>m. relu (m ! 0 ! 0)) (bmm emb1 emb2)
       in bind_err (index_pairs A_list tag1 tag2) (\<lambda>a. Inr (map2 (*) a r))))"

text \<open>\<^verbatim>\<open>CRF.transitions\<close>, the matrix form over all pairs of tags.\<close>

definition transitions :: "crf \<Rightarrow> real list list \<Rightarrow> real list list \<Rightarrow> real list list" where
  "transitions self full_road_emb A_list =
     (let attention = matmul (linear self full_road_emb) (transpose01 full_road_emb)
      in map2 (\<lambda>arow trow. map2 (\<lambda>a x. a * relu x) arow trow) A_list attention)"

text \<open>
  The shapes one call works with: \<open>n\<close> tags with embeddings of dimension \<open>d\<close>, a square
  projection and an \<open>n \<times> n\<close> adjacency matrix.
\<close>

definition wf_params :: "crf \<Rightarrow> real list list \<Rightarrow> real list list \<Rightarrow> nat \<Rightarrow> nat \<Rightarrow> bool" where
  "wf_params self full_road_emb A_list n d \<longleftrightarrow>
     0 < d \<and> matrix_shape full_road_emb n d \<and> matrix_shape A_list n n \<and>
     matrix_shape (W_weight self) d d \<and> length (W_bias self) = d"

definition tags_in_range :: "nat \<Rightarrow> int list \<Rightarrow> bool" where
  "tags_in_range n ts \<longleftrightarrow> list_all (\<lambda>t. 0 \<le> t \<and> t < int n) ts"

section \<open>The score of a tag sequence\<close>

text \<open>\<^verbatim>\<open>mask.float()\<close> on one row of the mask.\<close>

definition mask_float :: "bool list \<Rightarrow> real list" where
  "mask_float ms = map (\<lambda>m. if m then 1 else 0) ms"

text \<open>
  The loop of \<^verbatim>\<open>CRF._compute_score\<close> over \<^verbatim>\<open>range(1, seq_length)\<close>: the list holds the
  steps still to run.  The tags of a step are looked up whether or not the step is
  masked; the mask only multiplies what was looked up.
\<close>

fun compute_score_loop ::
  "crf \<Rightarrow> real list list list \<Rightarrow> int list list \<Rightarrow> real list list \<Rightarrow> real list list \<Rightarrow>
   bool list list \<Rightarrow> nat \<Rightarrow> nat list \<Rightarrow> real list \<Rightarrow> error + real list" where
  "compute_score_loop self emissions tags full_road_emb A_list msk batch_size [] score =
     Inr score"
| "compute_score_loop self emissions tags full_road_emb A_list msk batch_size (i # steps) score =
     bind_err (transition self (tags ! (i - 1)) (tags ! i) full_road_emb A_list) (\<lambda>tr.
     bind_err (index_pairs (emissions ! i) (map int [0..<batch_size]) (tags ! i)) (\<lambda>e.
       compute_score_loop self emissions tags full_road_emb A_list msk batch_size steps
         (map2 (+) (map2 (+) score (map2 (*) tr (mask_float (msk ! i))))
                   (map2 (*) e (mask_float (msk ! i))))))"

text \<open>
  \<^verbatim>\<open>CRF._compute_score\<close>, on time-major tensors.  With no time step at all,
  \<^verbatim>\<open>tags[0]\<close> raises IndexError.
\<close>

definition compute_score ::
  "crf \<Rightarrow> real list list list \<Rightarrow> int list list \<Rightarrow> real list list \<Rightarrow> real list list \<Rightarrow>
   bool list list \<Rightarrow> error + real list" where
  "compute_score self emissions tags full_road_emb A_list msk =
     (let seq_length = length tags; batch_size = ncols tags in
      bind_err (py_index tags 0) (\<lambda>tags0.
      bind_err (py_index emissions 0) (\<lambda>em0.
      bind_err (index_pairs em0 (map int [0..<batch_size]) tags0) (\<lambda>e0.
        compute_score_loop self emissions tags full_road_emb A_list msk batch_size
          [1..<seq_length] (map2 (+) (replicate batch_size 0) e0)))))"

section \<open>The sampled normalizer\<close>

text \<open>
  \<^verbatim>\<open>np.random.choice(a, size, replace=False)\<close> is NumPy's, not this repository's: it
  raises ValueError when \<open>size\<close> exceeds \<open>a\<close>, and otherwise returns the first \<open>size\<close>
  entries of a permutation of \<^verbatim>\<open>range(a)\<close> that the global generator draws.  The
  generator's draw is the argument \<open>perm\<close>.
\<close>

definition random_choice :: "nat list \<Rightarrow> nat \<Rightarrow> nat \<Rightarrow> error + nat list" where
  "random_choice perm a k = (if a < k then Inl ValueError else Inr (take k perm))"

definition is_draw :: "nat list \<Rightarrow> nat \<Rightarrow> bool" where
  "is_draw perm a \<longleftrightarrow> length perm = a \<and> distinct perm \<and> list_all (\<lambda>t. t < a) perm"

text \<open>\<^verbatim>\<open>M[:, idx]\<close>: the columns \<open>idx\<close> of every row.\<close>

definition index_cols :: "'a list list \<Rightarrow> int list \<Rightarrow> error + 'a list list" where
  "index_cols M idx = sequence_err (map (\<lambda>row. index_rows row idx) M)"

definition logsumexp :: "real list \<Rightarrow> real" where
  "logsumexp xs = ln (sum_list (map exp xs))"

text \<open>
  For one batch element, the matrix \<^verbatim>\<open>score.unsqueeze(1) + trans + emissions.unsqueeze(0)\<close>:
  its entry \<open>[k][t]\<close> is \<open>score[k] + trans[k][t] + emissions[t]\<close>.
\<close>

definition broadcast_sum :: "real list \<Rightarrow> real list list \<Rightarrow> real list \<Rightarrow> real list list" where
  "broadcast_sum score trns em = map2 (\<lambda>s row. map2 (\<lambda>tr e. s + tr + e) row em) score trns"

text \<open>
  One pass of the loop of \<^verbatim>\<open>CRF._compute_normalizer\<close>: the log-sum-exp over the
  previous tag (dimension 1 of the batched tensor), kept where the mask is true.
\<close>

definition normalizer_step ::
  "real list list list \<Rightarrow> real list list \<Rightarrow> bool list list \<Rightarrow> int list \<Rightarrow> nat \<Rightarrow>
   real list list \<Rightarrow> error + real list list" where
  "normalizer_step emissions trns msk neg_tag_sets i score =
     bind_err (index_cols (emissions ! i) neg_tag_sets) (\<lambda>em_i.
       let next_score = map2 (\<lambda>s e. map logsumexp (transpose01 (broadcast_sum s trns e)))
                          score em_i
       in Inr (map2 (\<lambda>m (n, s). if m then n else s) (msk ! i) (zip next_score score)))"

fun normalizer_loop ::
  "real list list list \<Rightarrow> real list list \<Rightarrow> bool list list \<Rightarrow> int list \<Rightarrow> nat list \<Rightarrow>
   real list list \<Rightarrow> error + real list list" where
  "normalizer_loop emissions trns msk neg_tag_sets [] score = Inr score"
| "normalizer_loop emissions trns msk neg_tag_sets (i # steps) score =
     bind_err (normalizer_step emissions trns msk neg_tag_sets i score)
       (normalizer_loop emissions trns msk neg_tag_sets steps)"

text \<open>
  \<^verbatim>\<open>CRF._compute_normalizer\<close>.  The last line calls \<^verbatim>\<open>math.log\<close>, which raises
  ValueError at \<open>0\<close>, that is when \<open>num_tags\<close> is \<open>0\<close>.
\<close>

definition compute_normalizer ::
  "crf \<Rightarrow> nat list \<Rightarrow> real list list list \<Rightarrow> real list list \<Rightarrow> real list list \<Rightarrow>
   bool list list \<Rightarrow> real list \<Rightarrow> error + real list" where
  "compute_normalizer self perm emissions full_road_emb A_list msk numerator =
     (let seq_length = length emissions in
      bind_err (random_choice perm (num_tags self) (neg_nums self)) (\<lambda>sample.
      let neg_tag_sets = map int sample in
      bind_err (py_index emissions 0) (\<lambda>em0.
      bind_err (index_cols em0 neg_tag_sets) (\<lambda>score.
      bind_err (index_rows (transitions self full_road_emb A_list) neg_tag_sets) (\<lambda>rows.
      bind_err (index_cols rows neg_tag_sets) (\<lambda>trns.
      bind_err (normalizer_loop emissions trns msk neg_tag_sets [1..<seq_length] score)
        (\<lambda>score.
      let score = map2 (\<lambda>row n. row @ [n]) score numerator in
      if num_tags self = 0 then Inl ValueError
      else Inr (map (\<lambda>row. logsumexp row +
                  ln (real (num_tags self) / real (neg_nums self + 1))) score))))))))"

section \<open>The training entry point\<close>

text \<open>
  \<^verbatim>\<open>CRF.forward\<close>.  The quotient is the real one; the tensor division of the code gives
  NaN or an infinity where the mask has no true entry, which the theorems exclude.
\<close>

definition forward ::
  "crf \<Rightarrow> nat list \<Rightarrow> real list list list \<Rightarrow> int list list \<Rightarrow> real list list \<Rightarrow>
   real list list \<Rightarrow> bool list list \<Rightarrow> error + real" where
  "forward self perm emissions tags full_road_emb A_list msk =
     (let emissions = (if batch_first self then transpose01 emissions else emissions);
          tags = (if batch_first self then transpose01 tags else tags);
          msk = (if batch_first self then transpose01 msk else msk) in
      bind_err (compute_score self emissions tags full_road_emb A_list msk) (\<lambda>numerator.
      bind_err (compute_normalizer self perm emissions full_road_emb A_list msk numerator)
        (\<lambda>denominator.
      let llh = map2 (-) numerator denominator in
      Inr (sum_list llh / sum_list (map (\<lambda>row. sum_list (mask_float row)) msk)))))"

section \<open>Viterbi decoding\<close>

text \<open>
  \<^verbatim>\<open>torch.max(xs, dim=0)\<close> on a vector: the maximum and an index of it.  Among several
  maximal entries the first index is returned.  The equation for the empty list is never
  reached: \<open>max_dim0\<close> raises there, as the reduction over an empty dimension does.
\<close>

fun max_index :: "real list \<Rightarrow> real \<times> nat" where
  "max_index [] = (0, 0)"
| "max_index [x] = (x, 0)"
| "max_index (x # y # ys) =
     (let (m, i) = max_index (y # ys) in if x < m then (m, Suc i) else (x, 0))"

definition max_vec :: "real list \<Rightarrow> error + real \<times> nat" where
  "max_vec xs = (if xs = [] then Inl IndexError else Inr (max_index xs))"

text \<open>\<^verbatim>\<open>torch.max(M, dim=0)\<close> on a matrix: per column, over the rows.\<close>

definition max_dim0 :: "real list list \<Rightarrow> error + (real \<times> nat) list" where
  "max_dim0 M = (if M = [] then Inl IndexError else Inr (map max_index (transpose01 M)))"

text \<open>
  One pass of the outer loop of \<^verbatim>\<open>CRF._viterbi_decode\<close>.  The inner loop fills every
  row \<open>j\<close> of \<open>next_score\<close> and \<open>indices\<close>; \<open>score\<close> takes the new row where the mask
  is true; \<open>history\<close> gets the indices of this step, masked or not.
\<close>

definition viterbi_step ::
  "real list list list \<Rightarrow> real list list \<Rightarrow> bool list list \<Rightarrow> nat \<Rightarrow> nat \<Rightarrow>
   real list list \<times> nat list list list \<Rightarrow> error + real list list \<times> nat list list list" where
  "viterbi_step emissions trns msk batch_size i st =
     (case st of (score, history) \<Rightarrow>
      bind_err (sequence_err (map (\<lambda>j. max_dim0 (broadcast_sum (score ! j) trns
                                                   (emissions ! i ! j)))
                                  [0..<batch_size])) (\<lambda>cur.
        let next_score = map (map fst) cur;
            indices = map (map snd) cur;
            score = map2 (\<lambda>m (n, s). if m then n else s) (msk ! i) (zip next_score score)
        in Inr (score, history @ [indices])))"

fun viterbi_loop ::
  "real list list list \<Rightarrow> real list list \<Rightarrow> bool list list \<Rightarrow> nat \<Rightarrow> nat list \<Rightarrow>
   real list list \<times> nat list list list \<Rightarrow> error + real list list \<times> nat list list list" where
  "viterbi_loop emissions trns msk batch_size [] st = Inr st"
| "viterbi_loop emissions trns msk batch_size (i # steps) st =
     bind_err (viterbi_step emissions trns msk batch_size i st)
       (viterbi_loop emissions trns msk batch_size steps)"

text \<open>\<^verbatim>\<open>xs[:n]\<close> for a Python integer \<open>n\<close>: a negative \<open>n\<close> counts from the end.\<close>

definition slice_to :: "'a list \<Rightarrow> int \<Rightarrow> 'a list" where
  "slice_to xs n = (if 0 \<le> n then take (nat n) xs else take (length xs - nat (- n)) xs)"

text \<open>\<^verbatim>\<open>mask.long().sum(dim=0) - 1\<close>: per batch element, the number of valid steps less one.\<close>

definition seq_ends :: "bool list list \<Rightarrow> int list" where
  "seq_ends msk =
     map (\<lambda>col. sum_list (map (\<lambda>m. if m then 1 else 0) col) - 1) (transpose01 msk)"

text \<open>The trace back of one batch element, with the final reversal.\<close>

definition trace_back :: "nat list list list \<Rightarrow> nat \<Rightarrow> nat \<Rightarrow> nat list" where
  "trace_back hists idx best_last_tag =
     rev (foldl (\<lambda>best_tags hist. best_tags @ [hist ! idx ! last best_tags])
            [best_last_tag] (rev hists))"

definition viterbi_decode ::
  "crf \<Rightarrow> real list list list \<Rightarrow> real list list \<Rightarrow> real list list \<Rightarrow> bool list list \<Rightarrow>
   error + int list list" where
  "viterbi_decode self emissions full_road_emb A_list msk =
     (let seq_length = length msk; batch_size = ncols msk in
      bind_err (py_index emissions 0) (\<lambda>score.
      let trns = transitions self full_road_emb A_list in
      bind_err (viterbi_loop emissions trns msk batch_size [1..<seq_length] (score, []))
        (\<lambda>st. case st of (score, history) \<Rightarrow>
      sequence_err (map (\<lambda>idx.
          bind_err (max_vec (score ! idx)) (\<lambda>best.
            let best_tags = trace_back (slice_to history (seq_ends msk ! idx)) idx (snd best);
                tags_len = length best_tags
            in Inr (map int best_tags @ replicate (seq_length - tags_len) (- 1))))
        [0..<batch_size]))))"

text \<open>\<^verbatim>\<open>CRF.decode\<close>.\<close>

definition decode ::
  "crf \<Rightarrow> real list list list \<Rightarrow> real list list \<Rightarrow> real list list \<Rightarrow> bool list list \<Rightarrow>
   error + int list list" where
  "decode self emissions full_road_emb A_list msk =
     (let emissions = (if batch_first self then transpose01 emissions else emissions);
          msk = (if batch_first self then transpose01 msk else msk)
      in viterbi_decode self emissions full_road_emb A_list msk)"

section \<open>Preconditions of the theorems\<close>

text \<open>
  The shapes of one call on time-major tensors: \<open>S\<close> time steps, \<open>B\<close> batch elements,
  \<open>n\<close> tags, embeddings of dimension \<open>d\<close>; and gold tags of that shape, all within
  \<open>[0, n)\<close>.
\<close>

definition wf_batch ::
  "crf \<Rightarrow> real list list list \<Rightarrow> real list list \<Rightarrow> real list list \<Rightarrow> bool list list \<Rightarrow>
   nat \<Rightarrow> nat \<Rightarrow> nat \<Rightarrow> nat \<Rightarrow> bool" where
  "wf_batch self emissions full_road_emb A_list msk S B n d \<longleftrightarrow>
     wf_params self full_road_emb A_list n d \<and> num_tags self = n \<and> 0 < S \<and>
     cube_shape emissions S B n \<and> matrix_shape msk S B"

definition wf_tags :: "int list list \<Rightarrow> nat \<Rightarrow> nat \<Rightarrow> nat \<Rightarrow> bool" where
  "wf_tags tags S B n \<longleftrightarrow> matrix_shape tags S B \<and> list_all (tags_in_range n) tags"

text \<open>
  The entry points transpose their arguments when the module is batch-first.
  \<open>time_major\<close> is the tensor they hand on, \<open>entry self t b i\<close> what the argument \<open>t\<close>
  holds for batch element \<open>b\<close> at step \<open>i\<close>.  A list of rows cannot tell the shape of
  an empty tensor, so a call of an entry point has at least one batch element and one
  step.
\<close>

definition time_major :: "crf \<Rightarrow> 'a list list \<Rightarrow> 'a list list" where
  "time_major self t = (if batch_first self then transpose01 t else t)"

definition entry :: "crf \<Rightarrow> 'a list list \<Rightarrow> nat \<Rightarrow> nat \<Rightarrow> 'a" where
  "entry self t b i = (if batch_first self then t ! b ! i else t ! i ! b)"

definition wf_input ::
  "crf \<Rightarrow> real list list list \<Rightarrow> real list list \<Rightarrow> real list list \<Rightarrow> bool list list \<Rightarrow>
   nat \<Rightarrow> nat \<Rightarrow> nat \<Rightarrow> nat \<Rightarrow> bool" where
  "wf_input self emissions full_road_emb A_list msk S B n d \<longleftrightarrow>
     wf_params self full_road_emb A_list n d \<and> num_tags self = n \<and> 0 < S \<and> 0 < B \<and>
     (if batch_first self then cube_shape emissions B S n \<and> matrix_shape msk B S
      else cube_shape emissions S B n \<and> matrix_shape msk S B)"

definition wf_input_tags :: "crf \<Rightarrow> int list list \<Rightarrow> nat \<Rightarrow> nat \<Rightarrow> nat \<Rightarrow> bool" where
  "wf_input_tags self tags S B n \<longleftrightarrow>
     list_all (tags_in_range n) tags \<and>
     (if batch_first self then matrix_shape tags B S else matrix_shape tags S B)"

text \<open>
  Gold tags that are valid indices of a dimension of size \<open>n\<close>: within \<open>[-n, n)\<close>, the
  negative ones counting from the end.
\<close>

definition index_ok :: "nat \<Rightarrow> int \<Rightarrow> bool" where
  "index_ok n t \<longleftrightarrow> - int n \<le> t \<and> t < int n"

definition wf_input_index_tags :: "crf \<Rightarrow> int list list \<Rightarrow> nat \<Rightarrow> nat \<Rightarrow> nat \<Rightarrow> bool" where
  "wf_input_index_tags self tags S B n \<longleftrightarrow>
     list_all (list_all (index_ok n)) tags \<and>
     (if batch_first self then matrix_shape tags B S else matrix_shape tags S B)"

text \<open>
  An adjacency matrix has entries in \<open>{0, 1}\<close>.
\<close>

definition adjacency01 :: "real list list \<Rightarrow> bool" where
  "adjacency01 A_list \<longleftrightarrow> list_all (list_all (\<lambda>x. x = 0 \<or> x = 1)) A_list"

text \<open>
  The mask of batch element \<open>b\<close> is a prefix of true entries, at least one, followed by
  false ones; \<open>L\<close> is the valid length of the element.
\<close>

definition prefix_mask :: "crf \<Rightarrow> bool list list \<Rightarrow> nat \<Rightarrow> nat \<Rightarrow> bool" where
  "prefix_mask self msk S b \<longleftrightarrow>
     (\<exists>L \<in> set [1..<Suc S]. \<forall>i \<in> set [0..<S]. entry self msk b i \<longleftrightarrow> i < L)"

section \<open>The computation of one batch element\<close>

text \<open>
  The code computes on whole batches.  The definitions of this section say what one
  batch element contributes; the facts below prove that the batched functions compute
  exactly this, element by element.

  One entry of either form of the transition energy: the adjacency entry times the
  rectified inner product of the projected embedding of the first tag with the embedding
  of the second.
\<close>

definition energy :: "crf \<Rightarrow> real list list \<Rightarrow> real list list \<Rightarrow> nat \<Rightarrow> nat \<Rightarrow> real" where
  "energy self full_road_emb A_list a b =
     A_list ! a ! b *
     relu (sum_list (map (\<lambda>k. hd (linear self [full_road_emb ! a]) ! k * full_road_emb ! b ! k)
                         [0..<ncols full_road_emb]))"

text \<open>
  What one pass of the loop of \<^verbatim>\<open>_compute_score\<close> adds to the score of batch element
  \<open>b\<close> at step \<open>i\<close>, and the score of \<open>b\<close> after all passes.
\<close>

definition score_gain ::
  "crf \<Rightarrow> real list list list \<Rightarrow> int list list \<Rightarrow> real list list \<Rightarrow> real list list \<Rightarrow>
   bool list list \<Rightarrow> nat \<Rightarrow> real \<Rightarrow> nat \<Rightarrow> real" where
  "score_gain self emissions tags full_road_emb A_list msk b s i =
     s + energy self full_road_emb A_list (nat (tags ! (i - 1) ! b)) (nat (tags ! i ! b)) *
           (if msk ! i ! b then 1 else 0)
       + emissions ! i ! b ! nat (tags ! i ! b) * (if msk ! i ! b then 1 else 0)"

definition gold_score ::
  "crf \<Rightarrow> real list list list \<Rightarrow> int list list \<Rightarrow> real list list \<Rightarrow> real list list \<Rightarrow>
   bool list list \<Rightarrow> nat \<Rightarrow> real" where
  "gold_score self emissions tags full_road_emb A_list msk b =
     foldl (score_gain self emissions tags full_road_emb A_list msk b)
       (emissions ! 0 ! b ! nat (tags ! 0 ! b)) [1..<length tags]"

text \<open>
  The position a valid index stands for.
\<close>

definition norm_tag :: "nat \<Rightarrow> int \<Rightarrow> int" where
  "norm_tag n t = (if t < 0 then int n + t else t)"


text \<open>
  For one batch element of the decoder: the candidate scores of the next tag \<open>t\<close>, one
  per previous tag \<open>k\<close>; the maximum and its index for every next tag; the loop over the
  steps on the element's score and on its rows of the history (\<open>e i\<close> are the element's
  emissions at step \<open>i\<close>, \<open>m i\<close> its mask).
\<close>

definition cand :: "real list \<Rightarrow> real list list \<Rightarrow> real list \<Rightarrow> nat \<Rightarrow> real list" where
  "cand s trns e t = map (\<lambda>k. s ! k + trns ! k ! t + e ! t) [0..<length s]"

definition viterbi_row :: "real list \<Rightarrow> real list list \<Rightarrow> real list \<Rightarrow> (real \<times> nat) list" where
  "viterbi_row s trns e = map (\<lambda>t. max_index (cand s trns e t)) [0..<length e]"

fun elem_loop ::
  "(nat \<Rightarrow> real list) \<Rightarrow> real list list \<Rightarrow> (nat \<Rightarrow> bool) \<Rightarrow> nat list \<Rightarrow>
   real list \<times> nat list list \<Rightarrow> real list \<times> nat list list" where
  "elem_loop e trns m [] st = st"
| "elem_loop e trns m (i # steps) st =
     elem_loop e trns m steps
       (if m i then map fst (viterbi_row (fst st) trns (e i)) else fst st,
        snd st @ [map snd (viterbi_row (fst st) trns (e i))])"

text \<open>
  The trace back on the element's rows of the history, the number of its valid steps,
  and its decoded sequence, padded with \<open>- 1\<close>; \<open>send\<close> is the element's entry of
  \<open>seq_ends\<close>.
\<close>

definition trace_elem :: "nat list list \<Rightarrow> nat \<Rightarrow> nat list" where
  "trace_elem hs t = rev (foldl (\<lambda>best_tags h. best_tags @ [h ! last best_tags]) [t] (rev hs))"

definition valid_steps :: "(nat \<Rightarrow> bool) \<Rightarrow> nat \<Rightarrow> int" where
  "valid_steps m S = sum_list (map (\<lambda>i. if m i then 1 else 0) [0..<S])"

definition decode_elem ::
  "(nat \<Rightarrow> real list) \<Rightarrow> real list list \<Rightarrow> (nat \<Rightarrow> bool) \<Rightarrow> nat \<Rightarrow> int \<Rightarrow> int list" where
  "decode_elem e trns m S send =
     (let st = elem_loop e trns m [1..<S] (e 0, []);
          best_tags = trace_elem (slice_to (snd st) send) (snd (max_index (fst st)))
      in map int best_tags @ replicate (S - length best_tags) (- 1))"

section \<open>Example inputs\<close>

text \<open>
  A module with three tags, embeddings of dimension one and the identity projection; the
  adjacency matrix of a graph in which every tag is adjacent to itself only.  Its
  transition energies are \<open>1\<close> from a tag to itself and \<open>0\<close> otherwise.
\<close>

definition crf3 :: crf where
  "crf3 = \<lparr>num_tags = 3, batch_first = True, beam_size = 1, neg_nums = 2,
            W_weight = [[1]], W_bias = [0]\<rparr>"

definition emb3 :: "real list list" where
  "emb3 = [[1], [1], [1]]"

definition eye3 :: "real list list" where
  "eye3 = [[1, 0, 0], [0, 1, 0], [0, 0, 1]]"


definition emb2 :: "real list list" where
  "emb2 = [[1], [1]]"

definition eye2 :: "real list list" where
  "eye2 = [[1, 0], [0, 1]]"

text \<open>
  A batch-first batch of two elements with two steps over three tags; the second element
  has one valid step.  In the second version the emissions at the one masked position
  are changed.
\<close>

definition em_ex :: "real list list list" where
  "em_ex = [[[0, 0, 10], [0, 5, 0]], [[0, 0, 10], [0, 0, 0]]]"

definition tags_ex :: "int list list" where
  "tags_ex = [[2, 1], [2, 1]]"

definition msk_ex :: "bool list list" where
  "msk_ex = [[True, True], [True, False]]"

definition em_ex2 :: "real list list list" where
  "em_ex2 = [[[0, 0, 10], [0, 5, 0]], [[0, 0, 10], [7, 8, 9]]]"

text \<open>
  The gold tags of the example with the tag at the masked position changed: to \<open>3\<close>,
  which is \<open>num_tags\<close> and no index of a tag, and to \<open>- 1\<close>, which is one.
\<close>

definition tags_ex3 :: "int list list" where
  "tags_ex3 = [[2, 1], [2, 3]]"

definition tags_ex4 :: "int list list" where
  "tags_ex4 = [[2, 1], [2, - 1]]"

section \<open>Facts about the tensor operations\<close>

lemma bind_err_Inr [simp]: "bind_err (Inr x) f = f x"
  by (simp add: bind_err_def)

lemma bind_err_Inl [simp]: "bind_err (Inl e) f = Inl e"
  by (simp add: bind_err_def)

lemma sequence_err_map_Inr:
  "(\<And>x. x \<in> set xs \<Longrightarrow> f x = Inr (g x)) \<Longrightarrow> sequence_err (map f xs) = Inr (map g xs)"
  by (induction xs) simp_all

lemma py_index_in_range:
  "0 \<le> i \<Longrightarrow> i < int (length xs) \<Longrightarrow> py_index xs i = Inr (xs ! nat i)"
  by (simp add: py_index_def)

lemma py_index_nat: "i < length xs \<Longrightarrow> py_index xs (int i) = Inr (xs ! i)"
  by (simp add: py_index_def)

lemma matrix_shapeD:
  "matrix_shape M r c \<Longrightarrow> length M = r"
  "matrix_shape M r c \<Longrightarrow> i < r \<Longrightarrow> length (M ! i) = c"
  by (auto simp: matrix_shape_def list_all_length)

lemma ncols_shape: "matrix_shape M r c \<Longrightarrow> 0 < r \<Longrightarrow> ncols M = c"
  by (cases M) (auto simp: matrix_shape_def ncols_def)

lemma index_rows_in_range:
  assumes "tags_in_range (length t) idx"
  shows "index_rows t idx = Inr (map (\<lambda>i. t ! nat i) idx)"
  unfolding index_rows_def
  using assms
  by (intro sequence_err_map_Inr) (auto simp: tags_in_range_def list_all_iff py_index_in_range)

lemma index_pairs_in_range:
  assumes "matrix_shape t r n" "tags_in_range r idx1" "tags_in_range n idx2"
  shows "index_pairs t idx1 idx2 = Inr (map2 (\<lambda>a b. t ! nat a ! nat b) idx1 idx2)"
proof -
  have "sequence_err (map (\<lambda>(a, b). bind_err (py_index t a) (\<lambda>row. py_index row b))
          (zip idx1 idx2)) = Inr (map (\<lambda>(a, b). t ! nat a ! nat b) (zip idx1 idx2))"
  proof (rule sequence_err_map_Inr)
    fix x assume xin: "x \<in> set (zip idx1 idx2)"
    obtain a b where x: "x = (a, b)" by (cases x)
    with xin have a: "a \<in> set idx1" and b: "b \<in> set idx2"
      by (auto dest: set_zip_leftD set_zip_rightD)
    from a b assms have ra: "0 \<le> a" "a < int r" and rb: "0 \<le> b" "b < int n"
      by (auto simp: tags_in_range_def list_all_iff)
    from ra assms(1) have "py_index t a = Inr (t ! nat a)" "length (t ! nat a) = n"
      by (auto simp: py_index_in_range matrix_shapeD)
    with rb x show "(case x of (a, b) \<Rightarrow> bind_err (py_index t a) (\<lambda>row. py_index row b)) =
        Inr (case x of (a, b) \<Rightarrow> t ! nat a ! nat b)"
      by (simp add: py_index_in_range)
  qed
  then show ?thesis by (simp add: index_pairs_def)
qed

lemma matmul_nth:
  "i < length X \<Longrightarrow> j < ncols Y \<Longrightarrow>
   matmul X Y ! i ! j = sum_list (map (\<lambda>k. X ! i ! k * Y ! k ! j) [0..<length Y])"
  by (simp add: matmul_def)

lemma length_matmul [simp]: "length (matmul X Y) = length X"
  by (simp add: matmul_def)

lemma length_matmul_row: "i < length X \<Longrightarrow> length (matmul X Y ! i) = ncols Y"
  by (simp add: matmul_def)

lemma matmul_rowwise: "matmul X Y = map (\<lambda>row. hd (matmul [row] Y)) X"
  by (simp add: matmul_def)

lemma transpose01_shape:
  assumes "matrix_shape M r c" "0 < r"
  shows "matrix_shape (transpose01 M) c r"
  using assms by (simp add: transpose01_def ncols_shape matrix_shape_def list_all_iff)

lemma transpose01_nth:
  assumes "matrix_shape M r c" "i < r" "j < c"
  shows "transpose01 M ! j ! i = M ! i ! j"
proof -
  from assms have "ncols M = c" "length M = r"
    by (auto simp: ncols_shape[of M r c] matrix_shapeD)
  with assms show ?thesis by (simp add: transpose01_def)
qed

lemma length_linear [simp]: "length (linear self X) = length X"
  by (simp add: linear_def)

lemma linear_rowwise: "linear self X = map (\<lambda>row. hd (linear self [row])) X"
  by (simp add: linear_def matmul_def)

lemma transitions_shape:
  assumes "wf_params self emb A n d"
  shows "matrix_shape (transitions self emb A) n n"
proof (cases "n = 0")
  case True
  with assms show ?thesis
    by (simp add: wf_params_def matrix_shape_def transitions_def Let_def)
next
  case False
  with assms have "ncols (transpose01 emb) = n"
    by (metis ncols_shape transpose01_shape wf_params_def neq0_conv)
  with assms show ?thesis
    by (auto simp: wf_params_def matrix_shape_def transitions_def Let_def list_all_length
          length_matmul_row)
qed

lemma transitions_entry:
  assumes wf: "wf_params self emb A n d" and a: "a < n" and b: "b < n"
  shows "transitions self emb A ! a ! b = energy self emb A a b"
proof -
  from wf a have shp: "matrix_shape emb n d" "0 < n" "0 < d" "length emb = n"
    and A: "length A = n" "length (A ! a) = n"
    by (auto simp: wf_params_def matrix_shapeD)
  have T: "matrix_shape (transpose01 emb) d n"
    using shp by (simp add: transpose01_shape)
  then have nc: "ncols (transpose01 emb) = n" and lT: "length (transpose01 emb) = d"
    using shp by (auto simp: ncols_shape matrix_shapeD)
  have nce: "ncols emb = d" using shp by (simp add: ncols_shape)
  let ?att = "matmul (linear self emb) (transpose01 emb)"
  have la: "length (?att ! a) = n"
    using a shp nc by (simp add: length_matmul_row)
  have "?att ! a ! b =
      sum_list (map (\<lambda>k. linear self emb ! a ! k * transpose01 emb ! k ! b) [0..<d])"
    using a b shp nc lT by (simp add: matmul_nth)
  also have "\<dots> = sum_list (map (\<lambda>k. hd (linear self [emb ! a]) ! k * emb ! b ! k) [0..<d])"
  proof -
    have "linear self emb ! a = hd (linear self [emb ! a])"
      using a shp by (subst linear_rowwise) simp
    moreover have "\<And>k. k < d \<Longrightarrow> transpose01 emb ! k ! b = emb ! b ! k"
      using shp b by (simp add: transpose01_nth)
    ultimately show ?thesis
      by (intro arg_cong[where f = sum_list] map_cong) auto
  qed
  finally have att: "?att ! a ! b =
      sum_list (map (\<lambda>k. hd (linear self [emb ! a]) ! k * emb ! b ! k) [0..<d])" .
  have "transitions self emb A ! a ! b = A ! a ! b * relu (?att ! a ! b)"
    using a b A la shp by (simp add: transitions_def Let_def)
  with att nce show ?thesis by (simp add: energy_def)
qed

lemma transition_entries:
  assumes wf: "wf_params self emb A n d"
    and t1: "tags_in_range n tag1" and t2: "tags_in_range n tag2"
    and len: "length tag1 = length tag2"
  shows "transition self tag1 tag2 emb A =
     Inr (map2 (\<lambda>a b. energy self emb A (nat a) (nat b)) tag1 tag2)"
proof -
  from wf have shp: "matrix_shape emb n d" "0 < d" "length emb = n" and A: "matrix_shape A n n"
    by (auto simp: wf_params_def matrix_shapeD)
  have r1: "index_rows emb tag1 = Inr (map (\<lambda>i. emb ! nat i) tag1)"
    and r2: "index_rows emb tag2 = Inr (map (\<lambda>i. emb ! nat i) tag2)"
    using t1 t2 shp by (simp_all add: index_rows_in_range)
  have ip: "index_pairs A tag1 tag2 = Inr (map2 (\<lambda>a b. A ! nat a ! nat b) tag1 tag2)"
    using A t1 t2 by (rule index_pairs_in_range)
  have "map2 (*) (map2 (\<lambda>a b. A ! nat a ! nat b) tag1 tag2)
          (map (\<lambda>m. relu (m ! 0 ! 0))
             (bmm (map (\<lambda>v. [v]) (linear self (map (\<lambda>i. emb ! nat i) tag1)))
                  (map (\<lambda>v. map (\<lambda>x. [x]) v) (map (\<lambda>i. emb ! nat i) tag2)))) =
        map2 (\<lambda>a b. energy self emb A (nat a) (nat b)) tag1 tag2"
  proof (rule nth_equalityI)
    show "length (map2 (*) (map2 (\<lambda>a b. A ! nat a ! nat b) tag1 tag2)
          (map (\<lambda>m. relu (m ! 0 ! 0))
             (bmm (map (\<lambda>v. [v]) (linear self (map (\<lambda>i. emb ! nat i) tag1)))
                  (map (\<lambda>v. map (\<lambda>x. [x]) v) (map (\<lambda>i. emb ! nat i) tag2))))) =
        length (map2 (\<lambda>a b. energy self emb A (nat a) (nat b)) tag1 tag2)"
      using len by (simp add: bmm_def)
  next
    fix i
    assume "i < length (map2 (*) (map2 (\<lambda>a b. A ! nat a ! nat b) tag1 tag2)
          (map (\<lambda>m. relu (m ! 0 ! 0))
             (bmm (map (\<lambda>v. [v]) (linear self (map (\<lambda>i. emb ! nat i) tag1)))
                  (map (\<lambda>v. map (\<lambda>x. [x]) v) (map (\<lambda>i. emb ! nat i) tag2)))))"
    with len have i: "i < length tag1" "i < length tag2" by (simp_all add: bmm_def)
    from i t2 have "nat (tag2 ! i) < n"
      by (auto simp: tags_in_range_def list_all_length)
    with shp have l2: "length (emb ! nat (tag2 ! i)) = d"
      by (simp add: matrix_shapeD)
    have lin: "linear self (map (\<lambda>i. emb ! nat i) tag1) ! i =
        hd (linear self [emb ! nat (tag1 ! i)])"
      using i by (subst linear_rowwise) simp
    have nc: "ncols (map (\<lambda>x. [x]) (emb ! nat (tag2 ! i))) = 1"
      using l2 shp by (cases "emb ! nat (tag2 ! i)") (simp_all add: ncols_def)
    have "matmul [hd (linear self [emb ! nat (tag1 ! i)])]
            (map (\<lambda>x. [x]) (emb ! nat (tag2 ! i))) ! 0 ! 0 =
          sum_list (map (\<lambda>k. hd (linear self [emb ! nat (tag1 ! i)]) ! k *
                               emb ! nat (tag2 ! i) ! k) [0..<d])"
    proof -
      have "matmul [hd (linear self [emb ! nat (tag1 ! i)])]
              (map (\<lambda>x. [x]) (emb ! nat (tag2 ! i))) ! 0 ! 0 =
            sum_list (map (\<lambda>k. hd (linear self [emb ! nat (tag1 ! i)]) ! k *
                 map (\<lambda>x. [x]) (emb ! nat (tag2 ! i)) ! k ! 0) [0..<d])"
        using nc l2 by (simp add: matmul_nth)
      also have "map (\<lambda>k. hd (linear self [emb ! nat (tag1 ! i)]) ! k *
                 map (\<lambda>x. [x]) (emb ! nat (tag2 ! i)) ! k ! 0) [0..<d] =
            map (\<lambda>k. hd (linear self [emb ! nat (tag1 ! i)]) ! k * emb ! nat (tag2 ! i) ! k)
              [0..<d]"
        using l2 by (intro map_cong refl) simp
      finally show ?thesis .
    qed
    moreover have "ncols emb = d"
      using shp \<open>nat (tag2 ! i) < n\<close> by (intro ncols_shape[of _ n]) auto
    ultimately show "map2 (*) (map2 (\<lambda>a b. A ! nat a ! nat b) tag1 tag2)
          (map (\<lambda>m. relu (m ! 0 ! 0))
             (bmm (map (\<lambda>v. [v]) (linear self (map (\<lambda>i. emb ! nat i) tag1)))
                  (map (\<lambda>v. map (\<lambda>x. [x]) v) (map (\<lambda>i. emb ! nat i) tag2)))) ! i =
        map2 (\<lambda>a b. energy self emb A (nat a) (nat b)) tag1 tag2 ! i"
      using i lin by (simp add: bmm_def energy_def)
  qed
  with r1 r2 ip show ?thesis
    by (simp add: transition_def Let_def)
qed

lemma relu_nonneg: "0 \<le> relu x"
  by (simp add: relu_def)

lemma energy_nonneg:
  assumes "adjacency01 A" "a < length A" "b < length (A ! a)"
  shows "0 \<le> energy self emb A a b"
proof -
  from assms have "A ! a ! b = 0 \<or> A ! a ! b = 1"
    by (simp add: adjacency01_def list_all_length)
  then show ?thesis
    by (auto simp: energy_def relu_nonneg)
qed

lemma wf_crf3: "wf_params crf3 emb3 eye3 3 1"
  by (simp add: wf_params_def matrix_shape_def crf3_def emb3_def eye3_def)

lemma transitions_crf3: "transitions crf3 emb3 eye3 = eye3"
  unfolding crf3_def emb3_def eye3_def by code_simp

section \<open>Facts about the scorer and the normalizer\<close>

lemma cube_shapeD:
  "cube_shape T a r c \<Longrightarrow> length T = a"
  "cube_shape T a r c \<Longrightarrow> i < a \<Longrightarrow> matrix_shape (T ! i) r c"
  by (auto simp: cube_shape_def list_all_length)

lemma tags_in_range_upt: "tags_in_range B (map int [0..<B])"
  by (simp add: tags_in_range_def list_all_iff)

lemma wf_tagsD:
  "wf_tags tags S B n \<Longrightarrow> length tags = S"
  "wf_tags tags S B n \<Longrightarrow> i < S \<Longrightarrow> length (tags ! i) = B"
  "wf_tags tags S B n \<Longrightarrow> i < S \<Longrightarrow> tags_in_range n (tags ! i)"
  by (auto simp: wf_tags_def matrix_shapeD list_all_length)

lemma gather_tags:
  assumes "matrix_shape M B n" "tags_in_range n ts" "length ts = B"
  shows "index_pairs M (map int [0..<B]) ts = Inr (map (\<lambda>b. M ! b ! nat (ts ! b)) [0..<B])"
proof -
  have "index_pairs M (map int [0..<B]) ts =
      Inr (map2 (\<lambda>a b. M ! nat a ! nat b) (map int [0..<B]) ts)"
    using assms(1) tags_in_range_upt assms(2) by (rule index_pairs_in_range)
  also have "map2 (\<lambda>a b. M ! nat a ! nat b) (map int [0..<B]) ts =
      map (\<lambda>b. M ! b ! nat (ts ! b)) [0..<B]"
    using assms(3) by (intro nth_equalityI) simp_all
  finally show ?thesis .
qed

lemma compute_score_step:
  assumes wf: "wf_batch self em emb A msk S B n d" and tg: "wf_tags tags S B n"
    and i: "0 < i" "i < S" and len: "length score = B"
  shows "compute_score_loop self em tags emb A msk B (i # steps) score =
     compute_score_loop self em tags emb A msk B steps
       (map (\<lambda>b. score_gain self em tags emb A msk b (score ! b) i) [0..<B])"
proof -
  from wf have P: "wf_params self emb A n d" and E: "matrix_shape (em ! i) B n"
    and M: "length (msk ! i) = B"
    using i by (auto simp: wf_batch_def cube_shapeD matrix_shapeD)
  from tg i have T: "tags_in_range n (tags ! (i - 1))" "tags_in_range n (tags ! i)"
    "length (tags ! (i - 1)) = B" "length (tags ! i) = B"
    by (simp_all add: wf_tagsD)
  have tr: "transition self (tags ! (i - 1)) (tags ! i) emb A =
      Inr (map2 (\<lambda>a b. energy self emb A (nat a) (nat b)) (tags ! (i - 1)) (tags ! i))"
    using P T by (intro transition_entries) simp_all
  have e: "index_pairs (em ! i) (map int [0..<B]) (tags ! i) =
      Inr (map (\<lambda>b. em ! i ! b ! nat (tags ! i ! b)) [0..<B])"
    using E T by (intro gather_tags) simp_all
  have "map2 (+) (map2 (+) score
          (map2 (*) (map2 (\<lambda>a b. energy self emb A (nat a) (nat b)) (tags ! (i - 1)) (tags ! i))
             (mask_float (msk ! i))))
          (map2 (*) (map (\<lambda>b. em ! i ! b ! nat (tags ! i ! b)) [0..<B]) (mask_float (msk ! i))) =
        map (\<lambda>b. score_gain self em tags emb A msk b (score ! b) i) [0..<B]"
    using len M T by (intro nth_equalityI) (simp_all add: mask_float_def score_gain_def)
  with tr e show ?thesis by simp
qed

lemma compute_score_loop_value:
  assumes wf: "wf_batch self em emb A msk S B n d" and tg: "wf_tags tags S B n"
    and steps: "\<forall>i \<in> set steps. 0 < i \<and> i < S" and len: "length score = B"
  shows "compute_score_loop self em tags emb A msk B steps score =
     Inr (map (\<lambda>b. foldl (score_gain self em tags emb A msk b) (score ! b) steps) [0..<B])"
  using steps len
proof (induction steps arbitrary: score)
  case Nil
  then have "map ((!) score) [0..<B] = score"
    using map_nth[of score] by simp
  then show ?case by simp
next
  case (Cons i steps)
  let ?s = "map (\<lambda>b. score_gain self em tags emb A msk b (score ! b) i) [0..<B]"
  from Cons.prems have i: "0 < i" "i < S" by simp_all
  have "compute_score_loop self em tags emb A msk B (i # steps) score =
      compute_score_loop self em tags emb A msk B steps ?s"
    using wf tg i Cons.prems(2) by (rule compute_score_step)
  also have "\<dots> = Inr (map (\<lambda>b. foldl (score_gain self em tags emb A msk b) (?s ! b) steps) [0..<B])"
    using Cons.prems by (intro Cons.IH) simp_all
  also have "map (\<lambda>b. foldl (score_gain self em tags emb A msk b) (?s ! b) steps) [0..<B] =
      map (\<lambda>b. foldl (score_gain self em tags emb A msk b) (score ! b) (i # steps)) [0..<B]"
    by (intro map_cong refl) simp
  finally show ?case .
qed

lemma compute_score_value:
  assumes wf: "wf_batch self em emb A msk S B n d" and tg: "wf_tags tags S B n"
  shows "compute_score self em tags emb A msk =
     Inr (map (gold_score self em tags emb A msk) [0..<B])"
proof -
  from wf have S: "0 < S" and E: "length em = S" "matrix_shape (em ! 0) B n"
    by (auto simp: wf_batch_def cube_shapeD)
  from tg S have T: "length tags = S" "length (tags ! 0) = B" "tags_in_range n (tags ! 0)"
    "ncols tags = B"
    by (auto simp: wf_tagsD wf_tags_def ncols_shape)
  have p: "py_index tags 0 = Inr (tags ! 0)" "py_index em 0 = Inr (em ! 0)"
    using S E T by (simp_all add: py_index_def)
  have e0: "index_pairs (em ! 0) (map int [0..<B]) (tags ! 0) =
      Inr (map (\<lambda>b. em ! 0 ! b ! nat (tags ! 0 ! b)) [0..<B])"
    using E T by (intro gather_tags) simp_all
  let ?s0 = "map (\<lambda>b. em ! 0 ! b ! nat (tags ! 0 ! b)) [0..<B]"
  have z: "map2 (+) (replicate B 0) ?s0 = ?s0"
    by (intro nth_equalityI) simp_all
  have "compute_score_loop self em tags emb A msk B [1..<S] ?s0 =
      Inr (map (\<lambda>b. foldl (score_gain self em tags emb A msk b) (?s0 ! b) [1..<S]) [0..<B])"
    using wf tg by (rule compute_score_loop_value) simp_all
  also have "map (\<lambda>b. foldl (score_gain self em tags emb A msk b) (?s0 ! b) [1..<S]) [0..<B] =
      map (gold_score self em tags emb A msk) [0..<B]"
    using T by (intro map_cong refl) (simp add: gold_score_def)
  finally show ?thesis
    using p e0 z T by (simp add: compute_score_def Let_def)
qed

lemma index_cols_in_range:
  assumes "matrix_shape M B n" "tags_in_range n idx"
  shows "index_cols M idx = Inr (map (\<lambda>row. map (\<lambda>t. row ! nat t) idx) M)"
  unfolding index_cols_def
proof (rule sequence_err_map_Inr)
  fix row assume "row \<in> set M"
  with assms(1) have "length row = n"
    by (simp add: matrix_shape_def list_all_iff)
  with assms(2) show "index_rows row idx = Inr (map (\<lambda>t. row ! nat t) idx)"
    by (simp add: index_rows_in_range)
qed

lemma normalizer_step_ok:
  assumes "cube_shape em S B n" "matrix_shape msk S B" "i < S" "tags_in_range n negs"
    and "length score = B"
  shows "\<exists>s'. normalizer_step em trns msk negs i score = Inr s' \<and> length s' = B"
proof -
  from assms have E: "matrix_shape (em ! i) B n" and M: "length (msk ! i) = B"
    by (auto simp: cube_shapeD matrix_shapeD)
  have "index_cols (em ! i) negs = Inr (map (\<lambda>row. map (\<lambda>t. row ! nat t) negs) (em ! i))"
    using E assms(4) by (rule index_cols_in_range)
  moreover have "length (em ! i) = B" using E by (simp add: matrix_shapeD)
  ultimately show ?thesis
    using M assms(5) by (simp add: normalizer_step_def Let_def)
qed

lemma normalizer_loop_ok:
  assumes "cube_shape em S B n" "matrix_shape msk S B" "tags_in_range n negs"
    and "\<forall>i \<in> set steps. i < S" and "length score = B"
  shows "\<exists>s'. normalizer_loop em trns msk negs steps score = Inr s' \<and> length s' = B"
  using assms(4,5)
proof (induction steps arbitrary: score)
  case Nil
  then show ?case by simp
next
  case (Cons i steps)
  then have "i < S" by simp
  with assms(1,2) obtain s1 where s1: "normalizer_step em trns msk negs i score = Inr s1"
    "length s1 = B"
    using assms(3) Cons.prems(2) normalizer_step_ok by blast
  from Cons.prems have "\<forall>i \<in> set steps. i < S" by simp
  from Cons.IH[OF this s1(2)] s1(1) show ?case by simp
qed

lemma sample_in_range:
  assumes "is_draw perm n"
  shows "tags_in_range n (map int (take k perm))"
  using assms
  by (auto simp: is_draw_def tags_in_range_def list_all_iff dest: in_set_takeD)

lemma compute_normalizer_value:
  assumes wf: "wf_batch self em emb A msk S B n d"
    and draw: "is_draw perm n" and k: "neg_nums self \<le> n" and n: "0 < n"
    and num: "length numerator = B"
  shows "\<exists>sc. length sc = B \<and>
     compute_normalizer self perm em emb A msk numerator =
       Inr (map2 (\<lambda>row x. logsumexp (row @ [x]) +
              ln (real n / real (neg_nums self + 1))) sc numerator)"
proof -
  let ?negs = "map int (take (neg_nums self) perm)"
  from wf have P: "wf_params self emb A n d" and N: "num_tags self = n" and S: "0 < S"
    and E: "cube_shape em S B n" and M: "matrix_shape msk S B"
    by (auto simp: wf_batch_def)
  have R: "tags_in_range n ?negs"
    using draw by (rule sample_in_range)
  have rc: "random_choice perm (num_tags self) (neg_nums self) = Inr (take (neg_nums self) perm)"
    using k N by (simp add: random_choice_def)
  have p0: "py_index em 0 = Inr (em ! 0)"
    using E S by (simp add: py_index_def cube_shapeD)
  have E0: "matrix_shape (em ! 0) B n"
    using E S by (simp add: cube_shapeD)
  have s0: "index_cols (em ! 0) ?negs = Inr (map (\<lambda>row. map (\<lambda>t. row ! nat t) ?negs) (em ! 0))"
    using E0 R by (rule index_cols_in_range)
  have T: "matrix_shape (transitions self emb A) n n"
    using P by (rule transitions_shape)
  then have rows: "index_rows (transitions self emb A) ?negs =
      Inr (map (\<lambda>i. transitions self emb A ! nat i) ?negs)"
    using R by (simp add: index_rows_in_range matrix_shapeD)
  have "length (transitions self emb A ! nat i) = n" if "i \<in> set ?negs" for i
  proof -
    from that R have "nat i < n"
      by (auto simp: tags_in_range_def list_all_iff)
    with T show ?thesis by (simp add: matrix_shapeD)
  qed
  then have "matrix_shape (map (\<lambda>i. transitions self emb A ! nat i) ?negs) (length ?negs) n"
    by (fastforce simp: matrix_shape_def list_all_iff)
  then have cols: "index_cols (map (\<lambda>i. transitions self emb A ! nat i) ?negs) ?negs =
      Inr (map (\<lambda>row. map (\<lambda>t. row ! nat t) ?negs)
             (map (\<lambda>i. transitions self emb A ! nat i) ?negs))"
    using R by (rule index_cols_in_range)
  let ?trns = "map (\<lambda>row. map (\<lambda>t. row ! nat t) ?negs)
             (map (\<lambda>i. transitions self emb A ! nat i) ?negs)"
  let ?sc0 = "map (\<lambda>row. map (\<lambda>t. row ! nat t) ?negs) (em ! 0)"
  have "length ?sc0 = B" using E0 by (simp add: matrix_shapeD)
  with E M R obtain sc where sc: "normalizer_loop em ?trns msk ?negs [1..<S] ?sc0 = Inr sc"
    "length sc = B"
    using normalizer_loop_ok[of em S B n msk ?negs "[1..<S]" ?sc0 ?trns] by auto
  have lenE: "length em = S" using E by (simp add: cube_shapeD)
  have "compute_normalizer self perm em emb A msk numerator =
       Inr (map2 (\<lambda>row x. logsumexp (row @ [x]) +
              ln (real n / real (neg_nums self + 1))) sc numerator)"
    unfolding compute_normalizer_def Let_def
    using rc p0 s0 rows cols sc lenE N n
    by (simp add: split_def o_def)
  with sc(2) show ?thesis by blast
qed

lemma logsumexp_snoc_ge: "x \<le> logsumexp (xs @ [x])"
proof -
  have "0 \<le> sum_list (map exp xs)"
    by (rule sum_list_nonneg) auto
  then have "exp x \<le> sum_list (map exp xs) + exp x" by simp
  then have "ln (exp x) \<le> ln (sum_list (map exp xs) + exp x)"
    by (subst ln_le_cancel_iff) (auto intro: add_nonneg_pos)
  then show ?thesis by (simp add: logsumexp_def)
qed

lemma transpose01_shape_gen:
  assumes "matrix_shape M r c" "0 < r"
  shows "length (transpose01 M) = c"
    and "j < c \<Longrightarrow> transpose01 M ! j = map (\<lambda>row. row ! j) M"
  using assms by (simp_all add: transpose01_def ncols_shape)

lemma cube_as_matrix: "cube_shape T a r c \<Longrightarrow> matrix_shape T a r"
  by (auto simp: cube_shape_def matrix_shape_def list_all_iff)

lemma transpose01_cube:
  assumes "cube_shape T B S n" "0 < B"
  shows "cube_shape (transpose01 T) S B n"
proof -
  have M: "matrix_shape T B S" using assms(1) by (rule cube_as_matrix)
  have len: "length (transpose01 T) = S"
    using M assms(2) by (rule transpose01_shape_gen)
  have "matrix_shape (transpose01 T ! j) B n" if "j < S" for j
  proof -
    have "transpose01 T ! j = map (\<lambda>row. row ! j) T"
      using M assms(2) that by (rule transpose01_shape_gen)
    moreover have "length (T ! b ! j) = n" if "b < B" for b
      using assms(1) that \<open>j < S\<close>
      by (auto simp: cube_shape_def matrix_shape_def list_all_length)
    moreover have "length T = B" using M by (simp add: matrix_shapeD)
    ultimately show ?thesis
      by (simp add: matrix_shape_def list_all_length)
  qed
  with len show ?thesis
    by (simp add: cube_shape_def list_all_length)
qed

lemma wf_input_batch:
  assumes "wf_input self em emb A msk S B n d"
  shows "wf_batch self (time_major self em) emb A (time_major self msk) S B n d"
  using assms
  by (auto simp: wf_input_def wf_batch_def time_major_def transpose01_cube transpose01_shape
      split: if_splits)

lemma wf_input_tags_batch:
  assumes "wf_input_tags self tags S B n" "0 < B"
  shows "wf_tags (time_major self tags) S B n"
proof (cases "batch_first self")
  case False
  with assms show ?thesis by (simp add: wf_input_tags_def wf_tags_def time_major_def)
next
  case True
  with assms have M: "matrix_shape tags B S" and R: "list_all (tags_in_range n) tags"
    by (simp_all add: wf_input_tags_def)
  have sh: "matrix_shape (transpose01 tags) S B"
    using M assms(2) by (rule transpose01_shape)
  have "tags_in_range n (transpose01 tags ! j)" if "j < S" for j
  proof -
    have "transpose01 tags ! j = map (\<lambda>row. row ! j) tags"
      using M assms(2) that by (rule transpose01_shape_gen)
    moreover have "0 \<le> row ! j \<and> row ! j < int n" if "row \<in> set tags" for row
    proof -
      from that M have "length row = S" by (simp add: matrix_shape_def list_all_iff)
      with \<open>j < S\<close> have "row ! j \<in> set row" by simp
      with R that show ?thesis by (auto simp: tags_in_range_def list_all_iff)
    qed
    ultimately show ?thesis by (simp add: tags_in_range_def list_all_iff)
  qed
  with sh True show ?thesis
    by (simp add: wf_tags_def time_major_def list_all_length matrix_shapeD)
qed

lemma sum_mask_float: "sum_list (mask_float row) = real (length (filter (\<lambda>m. m) row))"
  by (induction row) (simp_all add: mask_float_def)

lemma mask_total_count:
  "sum_list (map (\<lambda>row. sum_list (mask_float row)) M) = real (length (filter (\<lambda>m. m) (concat M)))"
  by (induction M) (simp_all add: sum_mask_float)

lemma mask_total_nth:
  assumes "matrix_shape M r c"
  shows "sum_list (map (\<lambda>row. sum_list (mask_float row)) M) =
     (\<Sum>i<r. \<Sum>j<c. if M ! i ! j then 1 else 0)"
proof -
  have "sum_list (mask_float (M ! i)) = (\<Sum>j<c. if M ! i ! j then 1 else 0)" if "i < r" for i
  proof -
    have "length (M ! i) = c" using assms that by (simp add: matrix_shapeD)
    then show ?thesis
      by (simp add: sum_list_sum_nth mask_float_def atLeast0LessThan)
  qed
  moreover have "length M = r" using assms by (simp add: matrix_shapeD)
  ultimately show ?thesis
    by (simp add: sum_list_sum_nth atLeast0LessThan)
qed

lemma mask_total_transpose:
  assumes "matrix_shape M r c" "0 < r"
  shows "sum_list (map (\<lambda>row. sum_list (mask_float row)) (transpose01 M)) =
     sum_list (map (\<lambda>row. sum_list (mask_float row)) M)"
proof -
  have T: "matrix_shape (transpose01 M) c r"
    using assms by (rule transpose01_shape)
  have "sum_list (map (\<lambda>row. sum_list (mask_float row)) (transpose01 M)) =
      (\<Sum>j<c. \<Sum>i<r. if transpose01 M ! j ! i then 1 else 0)"
    using T by (rule mask_total_nth)
  also have "\<dots> = (\<Sum>j<c. \<Sum>i<r. if M ! i ! j then 1 else 0)"
    using assms(1) by (intro sum.cong refl) (simp add: transpose01_nth)
  also have "\<dots> = (\<Sum>i<r. \<Sum>j<c. if M ! i ! j then 1 else 0)"
    by (rule sum.swap)
  also have "\<dots> = sum_list (map (\<lambda>row. sum_list (mask_float row)) M)"
    using assms(1) by (rule mask_total_nth[symmetric])
  finally show ?thesis .
qed

lemma mask_total_time_major:
  assumes "wf_input self em emb A msk S B n d"
  shows "sum_list (map (\<lambda>row. sum_list (mask_float row)) (time_major self msk)) =
     real (length (filter (\<lambda>m. m) (concat msk)))"
proof (cases "batch_first self")
  case True
  with assms have "matrix_shape msk B S" "0 < B" by (simp_all add: wf_input_def)
  then have "sum_list (map (\<lambda>row. sum_list (mask_float row)) (transpose01 msk)) =
      sum_list (map (\<lambda>row. sum_list (mask_float row)) msk)"
    by (rule mask_total_transpose)
  with True show ?thesis
    by (simp only: time_major_def if_True mask_total_count)
next
  case False
  then show ?thesis by (simp add: time_major_def mask_total_count)
qed

lemma forward_time_major:
  "forward self perm em tags emb A msk =
     bind_err (compute_score self (time_major self em) (time_major self tags) emb A
                 (time_major self msk)) (\<lambda>numerator.
     bind_err (compute_normalizer self perm (time_major self em) emb A (time_major self msk)
                 numerator) (\<lambda>denominator.
       Inr (sum_list (map2 (-) numerator denominator) /
            sum_list (map (\<lambda>row. sum_list (mask_float row)) (time_major self msk)))))"
  by (simp add: forward_def time_major_def Let_def)

lemma scorer_and_normalizer:
  assumes wf: "wf_batch self em emb A msk S B n d" and tg: "wf_tags tags S B n"
    and k: "neg_nums self < n" and draw: "is_draw perm n"
  shows "\<exists>num den. compute_score self em tags emb A msk = Inr num \<and>
     compute_normalizer self perm em emb A msk num = Inr den \<and>
     length num = B \<and> length den = B \<and> (\<forall>b<B. num ! b \<le> den ! b)"
proof -
  let ?num = "map (gold_score self em tags emb A msk) [0..<B]"
  have cs: "compute_score self em tags emb A msk = Inr ?num"
    using wf tg by (rule compute_score_value)
  from k have n: "0 < n" "neg_nums self \<le> n" by simp_all
  with wf draw obtain sc where sc: "length sc = B"
    and cn: "compute_normalizer self perm em emb A msk ?num =
       Inr (map2 (\<lambda>row x. logsumexp (row @ [x]) + ln (real n / real (neg_nums self + 1)))
              sc ?num)"
    using compute_normalizer_value[of self em emb A msk S B n d perm ?num] by auto
  let ?den = "map2 (\<lambda>row x. logsumexp (row @ [x]) + ln (real n / real (neg_nums self + 1)))
              sc ?num"
  have c: "0 \<le> ln (real n / real (neg_nums self + 1))"
    using k by (intro ln_ge_zero) simp
  have "?num ! b \<le> ?den ! b" if "b < B" for b
  proof -
    have "?den ! b = logsumexp (sc ! b @ [?num ! b]) + ln (real n / real (neg_nums self + 1))"
      using that sc by simp
    with c logsumexp_snoc_ge[of "?num ! b" "sc ! b"] show ?thesis by linarith
  qed
  with cs cn sc show ?thesis by auto
qed

lemma wf_crf3_batch: "wf_batch crf3 [[[0, 0, 10]]] emb3 eye3 [[True]] 1 1 3 1"
  using wf_crf3 by (simp add: wf_batch_def cube_shape_def matrix_shape_def crf3_def)






lemma max_index_conj:
  "xs \<noteq> [] \<Longrightarrow>
   snd (max_index xs) < length xs \<and> xs ! snd (max_index xs) = fst (max_index xs) \<and>
   (\<forall>x \<in> set xs. x \<le> fst (max_index xs))"
proof (induction xs rule: max_index.induct)
  case 1
  then show ?case by simp
next
  case (2 x)
  then show ?case by simp
next
  case (3 x y ys)
  then show ?case
    by (cases "max_index (y # ys)") (auto simp: Let_def)
qed

lemma max_dim0_broadcast:
  assumes s: "length s = n" and t: "matrix_shape trns n n" and e: "length e = n" and n: "0 < n"
  shows "max_dim0 (broadcast_sum s trns e) = Inr (viterbi_row s trns e)"
proof -
  let ?M = "broadcast_sum s trns e"
  from t have lt: "length trns = n" and rt: "\<And>k. k < n \<Longrightarrow> length (trns ! k) = n"
    by (simp_all add: matrix_shapeD)
  have lM: "length ?M = n"
    using s lt by (simp add: broadcast_sum_def)
  have rM: "?M ! k = map (\<lambda>t. s ! k + trns ! k ! t + e ! t) [0..<n]" if "k < n" for k
    using that s lt rt[OF that] e
    by (intro nth_equalityI) (simp_all add: broadcast_sum_def)
  have ne: "?M \<noteq> []" using lM n by auto
  have nc: "ncols ?M = n"
  proof -
    have "ncols ?M = length (?M ! 0)"
      using ne by (cases ?M) (simp_all add: ncols_def)
    with rM[OF n] show ?thesis by simp
  qed
  have "map max_index (transpose01 ?M) = viterbi_row s trns e"
    unfolding transpose01_def nc viterbi_row_def e map_map
  proof (intro map_cong refl)
    fix t assume "t \<in> set [0..<n]"
    then have t: "t < n" by simp
    have "map (\<lambda>row. row ! t) ?M = cand s trns e t"
      using lM s t rM by (intro nth_equalityI) (simp_all add: cand_def)
    then show "(max_index \<circ> (\<lambda>j. map (\<lambda>row. row ! j) ?M)) t = max_index (cand s trns e t)"
      by simp
  qed
  with ne show ?thesis by (simp add: max_dim0_def)
qed

lemma length_viterbi_row [simp]: "length (viterbi_row s trns e) = length e"
  by (simp add: viterbi_row_def)

lemma viterbi_step_value:
  assumes E: "cube_shape em S B n" and M: "matrix_shape msk S B" and T: "matrix_shape trns n n"
    and n: "0 < n" and i: "i < S" and sc: "matrix_shape score B n"
  shows "viterbi_step em trns msk B i (score, history) =
     Inr (map (\<lambda>b. if msk ! i ! b then map fst (viterbi_row (score ! b) trns (em ! i ! b))
                    else score ! b) [0..<B],
          history @ [map (\<lambda>b. map snd (viterbi_row (score ! b) trns (em ! i ! b))) [0..<B]])"
proof -
  from E i have Ei: "matrix_shape (em ! i) B n" by (simp add: cube_shapeD)
  from M i have Mi: "length (msk ! i) = B" by (simp add: matrix_shapeD)
  from sc have ls: "length score = B" by (simp add: matrix_shapeD)
  have cur: "sequence_err (map (\<lambda>j. max_dim0 (broadcast_sum (score ! j) trns (em ! i ! j)))
                [0..<B]) =
      Inr (map (\<lambda>j. viterbi_row (score ! j) trns (em ! i ! j)) [0..<B])"
  proof (rule sequence_err_map_Inr)
    fix j assume "j \<in> set [0..<B]"
    then have j: "j < B" by simp
    with sc Ei have "length (score ! j) = n" "length (em ! i ! j) = n"
      by (simp_all add: matrix_shapeD)
    then show "max_dim0 (broadcast_sum (score ! j) trns (em ! i ! j)) =
        Inr (viterbi_row (score ! j) trns (em ! i ! j))"
      using T n by (intro max_dim0_broadcast) simp_all
  qed
  have sel: "map2 (\<lambda>m (n, s). if m then n else s) (msk ! i)
        (zip (map (map fst) (map (\<lambda>j. viterbi_row (score ! j) trns (em ! i ! j)) [0..<B]))
           score) =
      map (\<lambda>b. if msk ! i ! b then map fst (viterbi_row (score ! b) trns (em ! i ! b))
                else score ! b) [0..<B]"
    using Mi ls by (intro nth_equalityI) simp_all
  show ?thesis
    unfolding viterbi_step_def prod.case cur bind_err_Inr Let_def sel
    by (simp add: comp_def)
qed

lemma viterbi_step_shape:
  assumes "cube_shape em S B n" "i < S" "matrix_shape score B n"
  shows "matrix_shape (map (\<lambda>b. if msk ! i ! b
            then map fst (viterbi_row (score ! b) trns (em ! i ! b)) else score ! b) [0..<B]) B n"
proof -
  from assms have "matrix_shape (em ! i) B n" by (simp add: cube_shapeD)
  with assms(3) show ?thesis
    by (auto simp: matrix_shape_def list_all_length)
qed

lemma viterbi_loop_elem:
  assumes E: "cube_shape em S B n" and M: "matrix_shape msk S B" and T: "matrix_shape trns n n"
    and n: "0 < n" and steps: "\<forall>i \<in> set steps. i < S" and sc: "matrix_shape score B n"
  shows "\<exists>score' history'.
     viterbi_loop em trns msk B steps (score, history) = Inr (score', history') \<and>
     matrix_shape score' B n \<and>
     (\<forall>b<B. (score' ! b, map (\<lambda>h. h ! b) history') =
        elem_loop (\<lambda>i. em ! i ! b) trns (\<lambda>i. msk ! i ! b) steps
          (score ! b, map (\<lambda>h. h ! b) history))"
  using steps sc
proof (induction steps arbitrary: score history)
  case Nil
  then show ?case by simp
next
  case (Cons i steps)
  let ?s = "map (\<lambda>b. if msk ! i ! b then map fst (viterbi_row (score ! b) trns (em ! i ! b))
                    else score ! b) [0..<B]"
  let ?h = "history @ [map (\<lambda>b. map snd (viterbi_row (score ! b) trns (em ! i ! b))) [0..<B]]"
  from Cons.prems have i: "i < S" and rest: "\<forall>i \<in> set steps. i < S" by simp_all
  have step: "viterbi_step em trns msk B i (score, history) = Inr (?s, ?h)"
    using E M T n i Cons.prems(2) by (rule viterbi_step_value)
  have shp: "matrix_shape ?s B n"
    using E i Cons.prems(2) by (rule viterbi_step_shape)
  from Cons.IH[OF rest shp, of ?h] obtain score' history' where
    loop: "viterbi_loop em trns msk B steps (?s, ?h) = Inr (score', history')"
    and shp': "matrix_shape score' B n"
    and el: "\<forall>b<B. (score' ! b, map (\<lambda>h. h ! b) history') =
        elem_loop (\<lambda>i. em ! i ! b) trns (\<lambda>i. msk ! i ! b) steps
          (?s ! b, map (\<lambda>h. h ! b) ?h)"
    by blast
  have "(score' ! b, map (\<lambda>h. h ! b) history') =
        elem_loop (\<lambda>i. em ! i ! b) trns (\<lambda>i. msk ! i ! b) (i # steps)
          (score ! b, map (\<lambda>h. h ! b) history)" if "b < B" for b
    using el that by simp
  with step loop shp' show ?case by simp
qed

lemma elem_loop_append:
  "elem_loop e trns m (xs @ ys) st = elem_loop e trns m ys (elem_loop e trns m xs st)"
  by (induction xs arbitrary: st) simp_all

lemma elem_loop_cong:
  assumes "\<forall>i \<in> set steps. m i = m' i \<and> e i = e' i"
  shows "elem_loop e trns m steps st = elem_loop e' trns m' steps st"
  using assms by (induction steps arbitrary: st) simp_all

lemma elem_loop_length:
  "length (snd (elem_loop e trns m steps st)) = length (snd st) + length steps"
  by (induction steps arbitrary: st) simp_all

lemma elem_loop_masked:
  assumes "\<forall>i \<in> set steps. \<not> m i"
  shows "fst (elem_loop e trns m steps st) = fst st \<and>
         take (length (snd st)) (snd (elem_loop e trns m steps st)) = snd st"
  using assms
proof (induction steps arbitrary: st)
  case Nil
  then show ?case by simp
next
  case (Cons i steps)
  let ?st = "(fst st, snd st @ [map snd (viterbi_row (fst st) trns (e i))])"
  from Cons.prems have "\<forall>i \<in> set steps. \<not> m i" and i: "\<not> m i" by simp_all
  from Cons.IH[OF this(1), of ?st]
  have a: "fst (elem_loop e trns m steps ?st) = fst st"
    and b: "take (Suc (length (snd st))) (snd (elem_loop e trns m steps ?st)) = snd ?st"
    by simp_all
  from b have "take (length (snd st)) (take (Suc (length (snd st)))
      (snd (elem_loop e trns m steps ?st))) = take (length (snd st)) (snd ?st)"
    by simp
  then have "take (length (snd st)) (snd (elem_loop e trns m steps ?st)) = snd st"
    by (simp add: min_def)
  with a i show ?case by simp
qed

lemma trace_back_elem: "trace_back hists idx t = trace_elem (map (\<lambda>h. h ! idx) hists) t"
  by (simp add: trace_back_def trace_elem_def rev_map foldl_map)

lemma length_trace_elem: "length (trace_elem hs t) = Suc (length hs)"
proof -
  have "length (foldl (\<lambda>best_tags h. best_tags @ [h ! last best_tags]) acc xs) =
      length acc + length xs" for acc and xs :: "nat list list"
    by (induction xs arbitrary: acc) simp_all
  then show ?thesis by (simp add: trace_elem_def)
qed

lemma slice_to_map: "map f (slice_to xs k) = slice_to (map f xs) k"
  by (simp add: slice_to_def take_map)

lemma seq_ends_nth:
  assumes "matrix_shape msk S B" "0 < S" "b < B"
  shows "seq_ends msk ! b = valid_steps (\<lambda>i. msk ! i ! b) S - 1"
proof -
  from assms have nc: "ncols msk = B" and len: "length msk = S"
    by (simp_all add: ncols_shape matrix_shapeD)
  have "map (\<lambda>m. if m then 1 else (0::int)) (map (\<lambda>row. row ! b) msk) =
      map (\<lambda>i. if msk ! i ! b then 1 else 0) [0..<S]"
    using len by (intro nth_equalityI) simp_all
  then show ?thesis
    using assms(3) nc by (simp add: seq_ends_def transpose01_def valid_steps_def)
qed

lemma viterbi_decode_value:
  assumes wf: "wf_batch self em emb A msk S B n d" and n: "0 < n"
  shows "viterbi_decode self em emb A msk =
     Inr (map (\<lambda>b. decode_elem (\<lambda>i. em ! i ! b) (transitions self emb A) (\<lambda>i. msk ! i ! b) S
                    (seq_ends msk ! b)) [0..<B])"
proof -
  let ?T = "transitions self emb A"
  from wf have P: "wf_params self emb A n d" and S: "0 < S"
    and E: "cube_shape em S B n" and M: "matrix_shape msk S B"
    by (auto simp: wf_batch_def)
  from M S have lm: "length msk = S" and nc: "ncols msk = B"
    by (simp_all add: matrix_shapeD ncols_shape)
  have T: "matrix_shape ?T n n" using P by (rule transitions_shape)
  have p0: "py_index em 0 = Inr (em ! 0)"
    using E S by (simp add: py_index_def cube_shapeD)
  have E0: "matrix_shape (em ! 0) B n"
    using E S by (simp add: cube_shapeD)
  have "\<forall>i \<in> set [1..<S]. i < S" by simp
  from viterbi_loop_elem[OF E M T n this E0, of "[]"] obtain score' history' where
    loop: "viterbi_loop em ?T msk B [1..<S] (em ! 0, []) = Inr (score', history')"
    and shp: "matrix_shape score' B n"
    and el: "\<forall>b<B. (score' ! b, map (\<lambda>h. h ! b) history') =
        elem_loop (\<lambda>i. em ! i ! b) ?T (\<lambda>i. msk ! i ! b) [1..<S] (em ! 0 ! b, [])"
    by auto
  have "sequence_err (map (\<lambda>idx.
          bind_err (max_vec (score' ! idx)) (\<lambda>best.
            let best_tags = trace_back (slice_to history' (seq_ends msk ! idx)) idx (snd best);
                tags_len = length best_tags
            in Inr (map int best_tags @ replicate (S - tags_len) (- 1))))
        [0..<B]) =
     Inr (map (\<lambda>b. decode_elem (\<lambda>i. em ! i ! b) ?T (\<lambda>i. msk ! i ! b) S (seq_ends msk ! b))
            [0..<B])"
  proof (rule sequence_err_map_Inr)
    fix b assume "b \<in> set [0..<B]"
    then have b: "b < B" by simp
    with shp n have "score' ! b \<noteq> []"
      by (auto simp: matrix_shape_def list_all_length)
    then have mv: "max_vec (score' ! b) = Inr (max_index (score' ! b))"
      by (simp add: max_vec_def)
    from el b have st: "elem_loop (\<lambda>i. em ! i ! b) ?T (\<lambda>i. msk ! i ! b) [1..<S] (em ! 0 ! b, []) =
        (score' ! b, map (\<lambda>h. h ! b) history')"
      by simp
    show "bind_err (max_vec (score' ! b)) (\<lambda>best.
            let best_tags = trace_back (slice_to history' (seq_ends msk ! b)) b (snd best);
                tags_len = length best_tags
            in Inr (map int best_tags @ replicate (S - tags_len) (- 1))) =
        Inr (decode_elem (\<lambda>i. em ! i ! b) ?T (\<lambda>i. msk ! i ! b) S (seq_ends msk ! b))"
      unfolding mv bind_err_Inr decode_elem_def st
      by (simp add: Let_def trace_back_elem slice_to_map)
  qed
  then show ?thesis
    unfolding viterbi_decode_def Let_def lm nc p0 bind_err_Inr loop prod.case .
qed

lemma valid_steps_prefix:
  assumes "L \<le> S" "\<forall>i<S. m i \<longleftrightarrow> i < L"
  shows "valid_steps m S = int L"
  using assms
proof (induction S arbitrary: L)
  case 0
  then show ?case by (simp add: valid_steps_def)
next
  case (Suc S)
  show ?case
  proof (cases "L = Suc S")
    case True
    with Suc.prems have "\<forall>i<S. m i \<longleftrightarrow> i < S" "m S" by auto
    with Suc.IH[of S] True show ?thesis
      by (simp add: valid_steps_def)
  next
    case False
    with Suc.prems have "L \<le> S" "\<forall>i<S. m i \<longleftrightarrow> i < L" "\<not> m S" by auto
    with Suc.IH show ?thesis by (simp add: valid_steps_def)
  qed
qed

lemma time_major_nth:
  assumes "if batch_first self then matrix_shape t B S else matrix_shape t S B"
    and "b < B" and "i < S"
  shows "time_major self t ! i ! b = entry self t b i"
proof (cases "batch_first self")
  case True
  with assms have "matrix_shape t B S" by simp
  from transpose01_nth[OF this assms(2,3)] True show ?thesis
    by (simp add: time_major_def entry_def)
next
  case False
  then show ?thesis by (simp add: time_major_def entry_def)
qed

lemma wf_input_entry:
  assumes "wf_input self em emb A msk S B n d" "b < B" "i < S"
  shows "time_major self em ! i ! b = entry self em b i"
    and "time_major self msk ! i ! b = entry self msk b i"
proof -
  from assms(1) have "if batch_first self then matrix_shape em B S else matrix_shape em S B"
    and "if batch_first self then matrix_shape msk B S else matrix_shape msk S B"
    by (auto simp: wf_input_def cube_as_matrix split: if_splits)
  with assms(2,3) show "time_major self em ! i ! b = entry self em b i"
    and "time_major self msk ! i ! b = entry self msk b i"
    by (simp_all add: time_major_nth)
qed

lemma decode_time_major:
  "decode self em emb A msk =
     viterbi_decode self (time_major self em) emb A (time_major self msk)"
  by (simp add: decode_def time_major_def Let_def)

lemma trace_elem_Nil [simp]: "trace_elem [] t = [t]"
  by (simp add: trace_elem_def)

lemma decode_elem_prefix:
  assumes L: "0 < L" "L \<le> S" and pre: "\<forall>i<S. m i \<longleftrightarrow> i < L"
  shows "decode_elem e trns m S (int L - 1) =
     (let st = elem_loop e trns m [1..<L] (e 0, []);
          best_tags = trace_elem (snd st) (snd (max_index (fst st)))
      in map int best_tags @ replicate (S - length best_tags) (- 1))"
proof -
  let ?st1 = "elem_loop e trns m [1..<L] (e 0, [])"
  let ?st = "elem_loop e trns m [L..<S] ?st1"
  have split: "[1..<S] = [1..<L] @ [L..<S]"
    using L upt_add_eq_append[of 1 L "S - L"] by simp
  have st: "elem_loop e trns m [1..<S] (e 0, []) = ?st"
    unfolding split elem_loop_append ..
  have len1: "length (snd ?st1) = L - 1"
    by (simp add: elem_loop_length)
  have "\<forall>i \<in> set [L..<S]. \<not> m i" using pre by auto
  from elem_loop_masked[OF this, of e trns ?st1]
  have f: "fst ?st = fst ?st1" and t0: "take (length (snd ?st1)) (snd ?st) = snd ?st1"
    by blast+
  note t = t0[unfolded len1]
  have "slice_to (snd ?st) (int L - 1) = take (L - 1) (snd ?st)"
    using L by (simp add: slice_to_def nat_diff_distrib)
  with t have sl: "slice_to (snd ?st) (int L - 1) = snd ?st1" by simp
  show ?thesis
    unfolding decode_elem_def st Let_def sl f ..
qed

lemma decode_elem_agree:
  assumes L: "0 < L" "L \<le> S" and pre: "\<forall>i<S. m i \<longleftrightarrow> i < L"
    and agree: "\<forall>i<S. m i \<longrightarrow> e1 i = e2 i"
  shows "decode_elem e1 trns m S (int L - 1) = decode_elem e2 trns m S (int L - 1)"
proof -
  from L pre agree have e0: "e1 0 = e2 0" by auto
  have "\<forall>i \<in> set [1..<L]. m i = m i \<and> e1 i = e2 i"
    using L pre agree by auto
  then have "elem_loop e1 trns m [1..<L] (e1 0, []) = elem_loop e2 trns m [1..<L] (e1 0, [])"
    by (rule elem_loop_cong)
  with e0 show ?thesis
    by (simp add: decode_elem_prefix[OF L pre])
qed

lemma gold_score_agree:
  assumes L: "0 < L" "L \<le> S" and pre: "\<forall>i<S. msk ! i ! b \<longleftrightarrow> i < L"
    and len: "length tags1 = S" "length tags2 = S"
    and agree: "\<forall>i<S. msk ! i ! b \<longrightarrow>
        em1 ! i ! b = em2 ! i ! b \<and> tags1 ! i ! b = tags2 ! i ! b"
  shows "gold_score self em1 tags1 emb A msk b = gold_score self em2 tags2 emb A msk b"
proof -
  have z: "em1 ! 0 ! b ! nat (tags1 ! 0 ! b) = em2 ! 0 ! b ! nat (tags2 ! 0 ! b)"
    using L pre agree by auto
  have "score_gain self em1 tags1 emb A msk b s i = score_gain self em2 tags2 emb A msk b s i"
    if "i \<in> set [1..<S]" for s i
  proof (cases "msk ! i ! b")
    case True
    from that have i: "0 < i" "i < S" by simp_all
    with True pre have "i < L" by simp
    with i pre L have "msk ! (i - 1) ! b" "i - 1 < S" by auto
    with agree True i show ?thesis
      by (simp add: score_gain_def)
  next
    case False
    then show ?thesis by (simp add: score_gain_def)
  qed
  then have "foldl (score_gain self em1 tags1 emb A msk b)
        (em1 ! 0 ! b ! nat (tags1 ! 0 ! b)) [1..<S] =
      foldl (score_gain self em2 tags2 emb A msk b)
        (em2 ! 0 ! b ! nat (tags2 ! 0 ! b)) [1..<S]"
    using z by (intro foldl_cong) simp_all
  with len show ?thesis by (simp add: gold_score_def)
qed

lemma prefix_maskD:
  assumes "prefix_mask self msk S b"
  obtains L where "0 < L" "L \<le> S" "\<forall>i<S. entry self msk b i \<longleftrightarrow> i < L"
proof -
  from assms obtain L where "L \<in> set [1..<Suc S]"
    and "\<forall>i \<in> set [0..<S]. entry self msk b i \<longleftrightarrow> i < L"
    unfolding prefix_mask_def by blast
  then have "0 < L" "L \<le> S" "\<forall>i<S. entry self msk b i \<longleftrightarrow> i < L"
    by auto
  then show thesis by (rule that)
qed

lemma decode_value:
  assumes wf: "wf_input self em emb A msk S B n d" and n: "0 < n"
  shows "decode self em emb A msk =
     Inr (map (\<lambda>b. decode_elem (\<lambda>i. time_major self em ! i ! b) (transitions self emb A)
                    (\<lambda>i. time_major self msk ! i ! b) S (seq_ends (time_major self msk) ! b))
            [0..<B])"
  unfolding decode_time_major
  using wf_input_batch[OF wf] n by (rule viterbi_decode_value)

lemma seq_ends_prefix:
  assumes wf: "wf_input self em emb A msk S B n d" and b: "b < B"
    and L: "0 < L" "L \<le> S" and pre: "\<forall>i<S. entry self msk b i \<longleftrightarrow> i < L"
  shows "seq_ends (time_major self msk) ! b = int L - 1"
    and "\<forall>i<S. time_major self msk ! i ! b \<longleftrightarrow> i < L"
proof -
  show p: "\<forall>i<S. time_major self msk ! i ! b \<longleftrightarrow> i < L"
    using pre wf_input_entry(2)[OF wf b] by simp
  from wf_input_batch[OF wf] have M: "matrix_shape (time_major self msk) S B" and S: "0 < S"
    by (simp_all add: wf_batch_def)
  from seq_ends_nth[OF M S b] valid_steps_prefix[OF L(2) p]
  show "seq_ends (time_major self msk) ! b = int L - 1" by simp
qed


lemma norm_tag_range: "index_ok n t \<Longrightarrow> 0 \<le> norm_tag n t \<and> norm_tag n t < int n"
  by (auto simp: index_ok_def norm_tag_def)

lemma py_index_norm:
  "length xs = n \<Longrightarrow> index_ok n t \<Longrightarrow> py_index xs t = py_index xs (norm_tag n t)"
  by (auto simp: py_index_def index_ok_def norm_tag_def)

lemma py_index_set: "py_index xs t = Inr x \<Longrightarrow> x \<in> set xs"
  by (auto simp: py_index_def split: if_splits)

lemma index_rows_norm:
  assumes "length xs = n" "list_all (index_ok n) idx"
  shows "index_rows xs idx = index_rows xs (map (norm_tag n) idx)"
proof -
  have "map (py_index xs) idx = map (py_index xs) (map (norm_tag n) idx)"
    using assms by (simp add: list_all_iff py_index_norm)
  then show ?thesis unfolding index_rows_def by (rule arg_cong)
qed

lemma pair_lookup_norm:
  assumes "matrix_shape t r n" "index_ok n b"
  shows "bind_err (py_index t a) (\<lambda>row. py_index row b) =
         bind_err (py_index t a) (\<lambda>row. py_index row (norm_tag n b))"
proof (cases "py_index t a")
  case (Inl e)
  then show ?thesis by simp
next
  case (Inr row)
  then have "row \<in> set t" by (rule py_index_set)
  with assms(1) have "length row = n" by (simp add: matrix_shape_def list_all_iff)
  with assms(2) Inr show ?thesis by (simp add: py_index_norm)
qed

lemma index_pairs_norm2:
  assumes "matrix_shape t r n" "list_all (index_ok n) idx2"
  shows "index_pairs t idx1 idx2 = index_pairs t idx1 (map (norm_tag n) idx2)"
proof -
  have "map2 (\<lambda>a b. bind_err (py_index t a) (\<lambda>row. py_index row b)) idx1 idx2 =
      map2 (\<lambda>a b. bind_err (py_index t a) (\<lambda>row. py_index row b)) idx1
        (map (norm_tag n) idx2)"
    unfolding zip_map2 map_map
  proof (intro map_cong refl)
    fix x assume x: "x \<in> set (zip idx1 idx2)"
    obtain a b where ab: "x = (a, b)" by (cases x)
    with x have "b \<in> set idx2" by (auto dest: set_zip_rightD)
    with assms(2) have "index_ok n b" by (simp add: list_all_iff)
    with assms(1) ab
    show "(case x of (a, b) \<Rightarrow> bind_err (py_index t a) (\<lambda>row. py_index row b)) =
        ((\<lambda>(a, b). bind_err (py_index t a) (\<lambda>row. py_index row b)) \<circ>
         (\<lambda>(x, y). (x, norm_tag n y))) x"
      by (simp add: pair_lookup_norm)
  qed
  then show ?thesis unfolding index_pairs_def by (rule arg_cong)
qed

lemma index_pairs_norm1:
  assumes "length t = n" "list_all (index_ok n) idx1"
  shows "index_pairs t idx1 idx2 = index_pairs t (map (norm_tag n) idx1) idx2"
proof -
  have "map2 (\<lambda>a b. bind_err (py_index t a) (\<lambda>row. py_index row b)) idx1 idx2 =
      map2 (\<lambda>a b. bind_err (py_index t a) (\<lambda>row. py_index row b))
        (map (norm_tag n) idx1) idx2"
    unfolding zip_map1 map_map
  proof (intro map_cong refl)
    fix x assume x: "x \<in> set (zip idx1 idx2)"
    obtain a b where ab: "x = (a, b)" by (cases x)
    with x have "a \<in> set idx1" by (auto dest: set_zip_leftD)
    with assms(2) have "index_ok n a" by (simp add: list_all_iff)
    with assms(1) ab
    show "(case x of (a, b) \<Rightarrow> bind_err (py_index t a) (\<lambda>row. py_index row b)) =
        ((\<lambda>(a, b). bind_err (py_index t a) (\<lambda>row. py_index row b)) \<circ>
         (\<lambda>(x, y). (norm_tag n x, y))) x"
      by (simp add: py_index_norm[of t n a])
  qed
  then show ?thesis unfolding index_pairs_def by (rule arg_cong)
qed

lemma transition_norm:
  assumes wf: "wf_params self emb A n d"
    and t1: "list_all (index_ok n) tag1" and t2: "list_all (index_ok n) tag2"
  shows "transition self tag1 tag2 emb A =
         transition self (map (norm_tag n) tag1) (map (norm_tag n) tag2) emb A"
proof -
  from wf have E: "length emb = n" and A: "matrix_shape A n n" "length A = n"
    by (auto simp: wf_params_def matrix_shapeD)
  have r1: "index_rows emb tag1 = index_rows emb (map (norm_tag n) tag1)"
    and r2: "index_rows emb tag2 = index_rows emb (map (norm_tag n) tag2)"
    using E t1 t2 by (simp_all add: index_rows_norm)
  have "index_pairs A tag1 tag2 = index_pairs A (map (norm_tag n) tag1) tag2"
    using A(2) t1 by (rule index_pairs_norm1)
  also have "\<dots> = index_pairs A (map (norm_tag n) tag1) (map (norm_tag n) tag2)"
    using A(1) t2 by (rule index_pairs_norm2)
  finally have p: "index_pairs A tag1 tag2 =
      index_pairs A (map (norm_tag n) tag1) (map (norm_tag n) tag2)" .
  show ?thesis
    unfolding transition_def r1 r2 p ..
qed

lemma compute_score_loop_norm:
  assumes P: "wf_params self emb A n d" and E: "cube_shape em S B n"
    and T: "length tags = S" "list_all (list_all (index_ok n)) tags"
    and steps: "\<forall>i \<in> set steps. 0 < i \<and> i < S"
  shows "compute_score_loop self em tags emb A msk bs steps score =
         compute_score_loop self em (map (map (norm_tag n)) tags) emb A msk bs steps score"
  using steps
proof (induction steps arbitrary: score)
  case Nil
  then show ?case by simp
next
  case (Cons i steps)
  let ?N = "map (map (norm_tag n)) tags"
  from Cons.prems have i: "0 < i" "i < S" and rest: "\<forall>i \<in> set steps. 0 < i \<and> i < S"
    by simp_all
  from i T have n1: "?N ! (i - 1) = map (norm_tag n) (tags ! (i - 1))"
    and n2: "?N ! i = map (norm_tag n) (tags ! i)"
    and ok: "list_all (index_ok n) (tags ! (i - 1))" "list_all (index_ok n) (tags ! i)"
    by (simp_all add: list_all_length)
  have tr: "transition self (tags ! (i - 1)) (tags ! i) emb A =
      transition self (?N ! (i - 1)) (?N ! i) emb A"
    unfolding n1 n2 using P ok by (rule transition_norm)
  have "matrix_shape (em ! i) B n" using E i by (simp add: cube_shapeD)
  then have ip: "index_pairs (em ! i) (map int [0..<bs]) (tags ! i) =
      index_pairs (em ! i) (map int [0..<bs]) (?N ! i)"
    unfolding n2 using ok(2) by (rule index_pairs_norm2)
  show ?case
    unfolding compute_score_loop.simps tr ip Cons.IH[OF rest] ..
qed

lemma ncols_map_map: "ncols (map (map f) M) = ncols M"
  by (cases M) (simp_all add: ncols_def)

lemma compute_score_norm:
  assumes wf: "wf_batch self em emb A msk S B n d"
    and T: "matrix_shape tags S B" "list_all (list_all (index_ok n)) tags"
  shows "compute_score self em tags emb A msk =
         compute_score self em (map (map (norm_tag n)) tags) emb A msk"
proof -
  let ?N = "map (map (norm_tag n)) tags"
  from wf have P: "wf_params self emb A n d" and S: "0 < S" and E: "cube_shape em S B n"
    by (auto simp: wf_batch_def)
  from T have len: "length tags = S" by (simp add: matrix_shapeD)
  from T S len have ok0: "list_all (index_ok n) (tags ! 0)"
    by (simp add: list_all_length)
  have p: "py_index tags 0 = Inr (tags ! 0)" "py_index ?N 0 = Inr (map (norm_tag n) (tags ! 0))"
    using S len by (simp_all add: py_index_def)
  have "matrix_shape (em ! 0) B n" using E S by (simp add: cube_shapeD)
  then have ip: "index_pairs (em ! 0) (map int [0..<ncols tags]) (tags ! 0) =
      index_pairs (em ! 0) (map int [0..<ncols tags]) (map (norm_tag n) (tags ! 0))"
    using ok0 by (rule index_pairs_norm2)
  have e0: "py_index em 0 = Inr (em ! 0)"
    using E S by (simp add: py_index_def cube_shapeD)
  have loop: "compute_score_loop self em tags emb A msk (ncols tags) [1..<S] sc =
      compute_score_loop self em ?N emb A msk (ncols tags) [1..<S] sc" for sc
    using P E len T(2) by (rule compute_score_loop_norm) simp
  show ?thesis
    unfolding compute_score_def Let_def ncols_map_map length_map len p e0 bind_err_Inr ip loop ..
qed

lemma norm_tags_wf:
  assumes "matrix_shape tags S B" "list_all (list_all (index_ok n)) tags"
  shows "wf_tags (map (map (norm_tag n)) tags) S B n"
  using assms
  by (auto simp: wf_tags_def matrix_shape_def list_all_iff tags_in_range_def
      dest: norm_tag_range)

lemma score_agree_time_major:
  assumes w1: "wf_batch self E1 emb A M S B n d" and w2: "wf_batch self E2 emb A M S B n d"
    and t1: "matrix_shape T1 S B" "list_all (list_all (index_ok n)) T1"
    and t2: "matrix_shape T2 S B" "list_all (list_all (index_ok n)) T2"
    and pre: "\<forall>b<B. \<exists>L. 0 < L \<and> L \<le> S \<and> (\<forall>i<S. M ! i ! b \<longleftrightarrow> i < L)"
    and agree: "\<forall>b<B. \<forall>i<S. M ! i ! b \<longrightarrow> E1 ! i ! b = E2 ! i ! b \<and> T1 ! i ! b = T2 ! i ! b"
  shows "\<exists>sc. compute_score self E1 T1 emb A M = Inr sc \<and>
              compute_score self E2 T2 emb A M = Inr sc"
proof -
  let ?N1 = "map (map (norm_tag n)) T1" and ?N2 = "map (map (norm_tag n)) T2"
  have n1: "wf_tags ?N1 S B n" and n2: "wf_tags ?N2 S B n"
    using t1 t2 by (simp_all add: norm_tags_wf)
  have c1: "compute_score self E1 T1 emb A M =
      Inr (map (gold_score self E1 ?N1 emb A M) [0..<B])"
    using compute_score_norm[OF w1 t1] compute_score_value[OF w1 n1] by simp
  have c2: "compute_score self E2 T2 emb A M =
      Inr (map (gold_score self E2 ?N2 emb A M) [0..<B])"
    using compute_score_norm[OF w2 t2] compute_score_value[OF w2 n2] by simp
  have "gold_score self E1 ?N1 emb A M b = gold_score self E2 ?N2 emb A M b" if b: "b < B" for b
  proof -
    from pre b obtain L where L: "0 < L" "L \<le> S" and pm: "\<forall>i<S. M ! i ! b \<longleftrightarrow> i < L"
      by blast
    have ag: "\<forall>i<S. M ! i ! b \<longrightarrow> E1 ! i ! b = E2 ! i ! b \<and> ?N1 ! i ! b = ?N2 ! i ! b"
    proof (intro allI impI)
      fix i assume i: "i < S" and m: "M ! i ! b"
      from t1(1) t2(1) i b have "?N1 ! i ! b = norm_tag n (T1 ! i ! b)"
        "?N2 ! i ! b = norm_tag n (T2 ! i ! b)"
        by (simp_all add: matrix_shapeD)
      with agree b i m show "E1 ! i ! b = E2 ! i ! b \<and> ?N1 ! i ! b = ?N2 ! i ! b"
        by simp
    qed
    show ?thesis
      using L pm wf_tagsD(1)[OF n1] wf_tagsD(1)[OF n2] ag by (rule gold_score_agree)
  qed
  then have "map (gold_score self E1 ?N1 emb A M) [0..<B] =
      map (gold_score self E2 ?N2 emb A M) [0..<B]"
    by (intro map_cong refl) simp
  with c1 c2 show ?thesis by simp
qed

lemma index_tags_time_major:
  assumes "wf_input_index_tags self tags S B n" "0 < B"
  shows "matrix_shape (time_major self tags) S B"
    and "list_all (list_all (index_ok n)) (time_major self tags)"
proof -
  show "matrix_shape (time_major self tags) S B"
    using assms
    by (auto simp: wf_input_index_tags_def time_major_def transpose01_shape split: if_splits)
  show "list_all (list_all (index_ok n)) (time_major self tags)"
  proof (cases "batch_first self")
    case False
    with assms show ?thesis by (simp add: wf_input_index_tags_def time_major_def)
  next
    case True
    with assms have M: "matrix_shape tags B S" and R: "list_all (list_all (index_ok n)) tags"
      by (simp_all add: wf_input_index_tags_def)
    have len: "length (transpose01 tags) = S"
      using M assms(2) by (rule transpose01_shape_gen)
    have "list_all (index_ok n) (transpose01 tags ! j)" if "j < S" for j
    proof -
      have "transpose01 tags ! j = map (\<lambda>row. row ! j) tags"
        using M assms(2) that by (rule transpose01_shape_gen)
      moreover have "index_ok n (row ! j)" if "row \<in> set tags" for row
      proof -
        from that M have "length row = S" by (simp add: matrix_shape_def list_all_iff)
        with \<open>j < S\<close> have "row ! j \<in> set row" by simp
        with R that show ?thesis by (auto simp: list_all_iff)
      qed
      ultimately show ?thesis by (simp add: list_all_iff)
    qed
    with len True show ?thesis
      by (simp add: time_major_def list_all_length)
  qed
qed

lemma index_tags_entry:
  assumes "wf_input_index_tags self tags S B n" "b < B" "i < S"
  shows "time_major self tags ! i ! b = entry self tags b i"
proof -
  from assms(1) have "if batch_first self then matrix_shape tags B S else matrix_shape tags S B"
    by (auto simp: wf_input_index_tags_def split: if_splits)
  with assms(2,3) show ?thesis by (simp add: time_major_nth)
qed

lemma index_tags_pos:
  assumes "wf_input_index_tags self tags S B n" "0 < S" "0 < B"
  shows "0 < n"
proof -
  have M: "matrix_shape (time_major self tags) S B"
    and R: "list_all (list_all (index_ok n)) (time_major self tags)"
    using assms(1,3) by (rule index_tags_time_major)+
  from M assms(2,3) have "0 < length (time_major self tags)"
    "0 < length (time_major self tags ! 0)"
    by (simp_all add: matrix_shapeD)
  with R have "index_ok n (time_major self tags ! 0 ! 0)"
    by (simp add: list_all_length)
  then show ?thesis by (auto simp: index_ok_def)
qed











section \<open>The two forms of the transition energy\<close>

text \<open>
  C5.  For tags within \<open>[0, n)\<close>, the pairwise form \<^verbatim>\<open>transition\<close> returns, for every
  batch element, the entry of the matrix \<^verbatim>\<open>transitions\<close> at that element's pair of
  tags, for the same embedding table, projection and adjacency matrix.
\<close>

theorem transition_eq_transitions_entry:
  assumes "wf_params self full_road_emb A_list n d"
    and "tags_in_range n tag1" and "tags_in_range n tag2"
    and "length tag1 = length tag2"
  shows "transition self tag1 tag2 full_road_emb A_list =
     Inr (map2 (\<lambda>a b. transitions self full_road_emb A_list ! nat a ! nat b) tag1 tag2)"
proof -
  have "map2 (\<lambda>a b. energy self full_road_emb A_list (nat a) (nat b)) tag1 tag2 =
        map2 (\<lambda>a b. transitions self full_road_emb A_list ! nat a ! nat b) tag1 tag2"
  proof (intro map_cong refl)
    fix x assume xin: "x \<in> set (zip tag1 tag2)"
    obtain a b where x: "x = (a, b)" by (cases x)
    with xin have "a \<in> set tag1" "b \<in> set tag2"
      by (auto dest: set_zip_leftD set_zip_rightD)
    with assms(2,3) have "nat a < n" "nat b < n"
      by (auto simp: tags_in_range_def list_all_iff)
    with assms(1) x
    show "(case x of (a, b) \<Rightarrow> energy self full_road_emb A_list (nat a) (nat b)) =
          (case x of (a, b) \<Rightarrow> transitions self full_road_emb A_list ! nat a ! nat b)"
      by (simp add: transitions_entry)
  qed
  with transition_entries[OF assms] show ?thesis by simp
qed

theorem transition_eq_transitions_entry_witness:
  "wf_params crf3 emb3 eye3 3 1 \<and> tags_in_range 3 [0, 2] \<and> tags_in_range 3 [0, 1] \<and>
   transition crf3 [0, 2] [0, 1] emb3 eye3 = Inr [1, 0]"
proof -
  have r: "tags_in_range 3 [0, 2]" "tags_in_range 3 [0, 1]"
    by (simp_all add: tags_in_range_def)
  have "transition crf3 [0, 2] [0, 1] emb3 eye3 =
      Inr (map2 (\<lambda>a b. transitions crf3 emb3 eye3 ! nat a ! nat b) [0, 2] [0, 1])"
    using wf_crf3 r by (rule transition_eq_transitions_entry) simp
  then have "transition crf3 [0, 2] [0, 1] emb3 eye3 = Inr [1, 0]"
    unfolding transitions_crf3 by (simp add: eye3_def)
  with wf_crf3 r show ?thesis by simp
qed

section \<open>Sign and gating of the transition energy\<close>

text \<open>
  C6.  With an adjacency matrix whose entries are \<open>0\<close> or \<open>1\<close>, and tags \<open>a\<close> and
  \<open>b\<close> within range, the transition energy of the pair is at least \<open>0\<close>, and it is
  \<open>0\<close> when \<open>adjacency[a, b]\<close> is \<open>0\<close>, whatever the embeddings are.  This holds for
  the entry of the matrix form and for the value the pairwise form returns.
\<close>

theorem transition_energy_nonneg_gated:
  assumes "wf_params self full_road_emb A_list n d"
    and "adjacency01 A_list" and "a < n" and "b < n"
  shows "0 \<le> transitions self full_road_emb A_list ! a ! b \<and>
     (A_list ! a ! b = 0 \<longrightarrow> transitions self full_road_emb A_list ! a ! b = 0) \<and>
     (\<exists>e. transition self [int a] [int b] full_road_emb A_list = Inr [e] \<and> 0 \<le> e \<and>
          (A_list ! a ! b = 0 \<longrightarrow> e = 0))"
proof -
  from assms have A: "a < length A_list" "b < length (A_list ! a)"
    by (auto simp: wf_params_def matrix_shapeD)
  have e0: "0 \<le> energy self full_road_emb A_list a b"
    using assms(2) A by (rule energy_nonneg)
  have e1: "A_list ! a ! b = 0 \<longrightarrow> energy self full_road_emb A_list a b = 0"
    by (simp add: energy_def)
  have m: "transitions self full_road_emb A_list ! a ! b = energy self full_road_emb A_list a b"
    using assms(1,3,4) by (rule transitions_entry)
  have "tags_in_range n [int a]" "tags_in_range n [int b]"
    using assms(3,4) by (simp_all add: tags_in_range_def)
  with assms(1)
  have "transition self [int a] [int b] full_road_emb A_list =
      Inr (map2 (\<lambda>a b. energy self full_road_emb A_list (nat a) (nat b)) [int a] [int b])"
    by (rule transition_entries) simp
  then have p: "transition self [int a] [int b] full_road_emb A_list =
      Inr [energy self full_road_emb A_list a b]"
    by simp
  from e0 e1 m p show ?thesis by simp
qed

theorem transition_energy_nonneg_gated_witness:
  "wf_params crf3 emb3 eye3 3 1 \<and> adjacency01 eye3 \<and> eye3 ! 2 ! 0 = 0 \<and>
   transitions crf3 emb3 eye3 ! 2 ! 0 = 0 \<and> 0 \<le> transitions crf3 emb3 eye3 ! 1 ! 1 \<and>
   transition crf3 [2] [0] emb3 eye3 = Inr [0]"
proof -
  have adj: "adjacency01 eye3"
    by (simp add: adjacency01_def eye3_def)
  have z: "eye3 ! 2 ! 0 = 0"
    by (simp add: eye3_def)
  from transition_energy_nonneg_gated[OF wf_crf3 adj, of 2 0] z
  have a: "transitions crf3 emb3 eye3 ! 2 ! 0 = 0"
    and b: "\<exists>e. transition crf3 [2] [0] emb3 eye3 = Inr [e] \<and> 0 \<le> e \<and> e = 0"
    by simp_all
  from transition_energy_nonneg_gated[OF wf_crf3 adj, of 1 1]
  have c: "0 \<le> transitions crf3 emb3 eye3 ! 1 ! 1"
    by simp
  from b have "transition crf3 [2] [0] emb3 eye3 = Inr [0]" by auto
  with wf_crf3 adj z a c show ?thesis by simp
qed

section \<open>The normalizer bounds the gold score\<close>

text \<open>
  C1.  On well-shaped time-major inputs with gold tags within range, a sample size
  \<open>neg_nums\<close> strictly below \<open>num_tags\<close> and any draw of the generator, the scorer and
  the normalizer both return, with one value per batch element, and for every batch
  element the normalizer's value is at least the gold score it was given.
\<close>

theorem normalizer_ge_gold_score:
  assumes "wf_batch self emissions full_road_emb A_list msk S B n d"
    and "wf_tags tags S B n"
    and "neg_nums self < num_tags self"
    and "is_draw perm (num_tags self)"
  shows "\<exists>numerator denominator.
     compute_score self emissions tags full_road_emb A_list msk = Inr numerator \<and>
     compute_normalizer self perm emissions full_road_emb A_list msk numerator =
       Inr denominator \<and>
     length numerator = B \<and> length denominator = B \<and>
     (\<forall>b<B. numerator ! b \<le> denominator ! b)"
proof -
  from assms(1) have "num_tags self = n" by (simp add: wf_batch_def)
  with assms show ?thesis
    by (intro scorer_and_normalizer) simp_all
qed

theorem normalizer_ge_gold_score_witness:
  "wf_batch crf3 [[[0, 0, 10]]] emb3 eye3 [[True]] 1 1 3 1 \<and> wf_tags [[2]] 1 1 3 \<and>
   neg_nums crf3 < num_tags crf3 \<and> is_draw [0, 1, 2] (num_tags crf3) \<and>
   compute_score crf3 [[[0, 0, 10]]] [[2]] emb3 eye3 [[True]] = Inr [10] \<and>
   (\<exists>den. compute_normalizer crf3 [0, 1, 2] [[[0, 0, 10]]] emb3 eye3 [[True]] [10] = Inr den \<and>
      10 \<le> den ! 0)"
proof -
  have t: "wf_tags [[2]] 1 1 3"
    by (simp add: wf_tags_def matrix_shape_def tags_in_range_def)
  have k: "neg_nums crf3 < num_tags crf3" and d: "is_draw [0, 1, 2] (num_tags crf3)"
    by (simp_all add: crf3_def is_draw_def)
  have cs: "compute_score crf3 [[[0, 0, 10]]] [[2]] emb3 eye3 [[True]] = Inr [10]"
    unfolding crf3_def emb3_def eye3_def by code_simp
  from normalizer_ge_gold_score[OF wf_crf3_batch t k d] cs
  have "\<exists>den. compute_normalizer crf3 [0, 1, 2] [[[0, 0, 10]]] emb3 eye3 [[True]] [10] = Inr den \<and>
      10 \<le> den ! 0"
    by auto
  with wf_crf3_batch t k d cs show ?thesis by simp
qed

section \<open>The value of the training entry point\<close>

text \<open>
  C9.  On well-shaped inputs with at least one valid position, \<^verbatim>\<open>forward\<close> returns the
  sum over the batch of gold score minus normalizer, divided by the number of valid
  positions of the whole batch (counted on the mask as it was passed in).
\<close>

theorem forward_value:
  assumes "wf_input self emissions full_road_emb A_list msk S B n d"
    and "wf_input_tags self tags S B n"
    and "neg_nums self < num_tags self"
    and "is_draw perm (num_tags self)"
    and "0 < length (filter (\<lambda>m. m) (concat msk))"
  shows "\<exists>numerator denominator.
     compute_score self (time_major self emissions) (time_major self tags) full_road_emb A_list
       (time_major self msk) = Inr numerator \<and>
     compute_normalizer self perm (time_major self emissions) full_road_emb A_list
       (time_major self msk) numerator = Inr denominator \<and>
     length numerator = B \<and> length denominator = B \<and>
     forward self perm emissions tags full_road_emb A_list msk =
       Inr ((\<Sum>b<B. numerator ! b - denominator ! b) /
            real (length (filter (\<lambda>m. m) (concat msk))))"
proof -
  from assms(1) have n: "num_tags self = n" and B: "0 < B" by (simp_all add: wf_input_def)
  have wb: "wf_batch self (time_major self emissions) full_road_emb A_list (time_major self msk)
      S B n d"
    using assms(1) by (rule wf_input_batch)
  have wt: "wf_tags (time_major self tags) S B n"
    using assms(2) B by (rule wf_input_tags_batch)
  have k: "neg_nums self < n" and dr: "is_draw perm n"
    using assms(3,4) n by simp_all
  from scorer_and_normalizer[OF wb wt k dr]
  obtain num den where
    cs: "compute_score self (time_major self emissions) (time_major self tags) full_road_emb
           A_list (time_major self msk) = Inr num"
    and cn: "compute_normalizer self perm (time_major self emissions) full_road_emb A_list
           (time_major self msk) num = Inr den"
    and len: "length num = B" "length den = B"
    by blast
  have "sum_list (map2 (-) num den) = (\<Sum>b<B. num ! b - den ! b)"
    using len by (simp add: sum_list_sum_nth atLeast0LessThan)
  moreover have "sum_list (map (\<lambda>row. sum_list (mask_float row)) (time_major self msk)) =
      real (length (filter (\<lambda>m. m) (concat msk)))"
    using assms(1) by (rule mask_total_time_major)
  ultimately have "forward self perm emissions tags full_road_emb A_list msk =
       Inr ((\<Sum>b<B. num ! b - den ! b) / real (length (filter (\<lambda>m. m) (concat msk))))"
    using cs cn by (simp add: forward_time_major)
  with cs cn len show ?thesis by blast
qed

theorem forward_value_witness:
  "wf_input crf3 em_ex emb3 eye3 msk_ex 2 2 3 1 \<and> wf_input_tags crf3 tags_ex 2 2 3 \<and>
   neg_nums crf3 < num_tags crf3 \<and> is_draw [0, 1, 2] (num_tags crf3) \<and>
   0 < length (filter (\<lambda>m. m) (concat msk_ex)) \<and>
   (\<exists>num den.
      compute_score crf3 (time_major crf3 em_ex) (time_major crf3 tags_ex) emb3 eye3
        (time_major crf3 msk_ex) = Inr num \<and>
      compute_normalizer crf3 [0, 1, 2] (time_major crf3 em_ex) emb3 eye3
        (time_major crf3 msk_ex) num = Inr den \<and>
      forward crf3 [0, 1, 2] em_ex tags_ex emb3 eye3 msk_ex =
        Inr ((num ! 0 - den ! 0 + (num ! 1 - den ! 1)) / 3))"
proof -
  have a: "wf_input crf3 em_ex emb3 eye3 msk_ex 2 2 3 1"
    using wf_crf3
    by (simp add: wf_input_def cube_shape_def matrix_shape_def crf3_def em_ex_def msk_ex_def)
  have b: "wf_input_tags crf3 tags_ex 2 2 3"
    by (simp add: wf_input_tags_def matrix_shape_def tags_in_range_def crf3_def tags_ex_def)
  have c: "neg_nums crf3 < num_tags crf3" "is_draw [0, 1, 2] (num_tags crf3)"
    by (simp_all add: crf3_def is_draw_def)
  have d: "0 < length (filter (\<lambda>m. m) (concat msk_ex))"
    and d3: "real (length (filter (\<lambda>m. m) (concat msk_ex))) = 3"
    by (simp_all add: msk_ex_def)
  from forward_value[OF a b c d] obtain num den where
    cs: "compute_score crf3 (time_major crf3 em_ex) (time_major crf3 tags_ex) emb3 eye3
        (time_major crf3 msk_ex) = Inr num"
    and cn: "compute_normalizer crf3 [0, 1, 2] (time_major crf3 em_ex) emb3 eye3
        (time_major crf3 msk_ex) num = Inr den"
    and fw: "forward crf3 [0, 1, 2] em_ex tags_ex emb3 eye3 msk_ex =
        Inr ((\<Sum>b<2. num ! b - den ! b) / real (length (filter (\<lambda>m. m) (concat msk_ex))))"
    by blast
  have two: "{..<2::nat} = {0, 1}" by auto
  have "(\<Sum>b<2. num ! b - den ! b) = num ! 0 - den ! 0 + (num ! 1 - den ! 1)"
    by (simp add: two)
  with fw d3 have "forward crf3 [0, 1, 2] em_ex tags_ex emb3 eye3 msk_ex =
        Inr ((num ! 0 - den ! 0 + (num ! 1 - den ! 1)) / 3)"
    by simp
  with a b c d cs cn show ?thesis by blast
qed

section \<open>Where the sample size is checked\<close>

text \<open>
  C8, as the claim states it: a sample size of at least \<open>num_tags\<close> is refused when the
  module is built.  The constructor returns a module when the two are equal and when the
  sample size is larger.
\<close>

theorem no_check_at_construction_counterexample:
  "CRF_init 2 [[1]] [0] 5 2 True =
     Inr \<lparr>num_tags = 2, batch_first = True, beam_size = 5, neg_nums = 2,
          W_weight = [[1]], W_bias = [0]\<rparr> \<and>
   CRF_init 2 [[1]] [0] 5 3 True =
     Inr \<lparr>num_tags = 2, batch_first = True, beam_size = 5, neg_nums = 3,
          W_weight = [[1]], W_bias = [0]\<rparr>"
  by (simp add: CRF_init_def)

section \<open>Where the sample size is checked: what holds\<close>

text \<open>
  C8, amended.  The constructor returns a module for every sample size.  A normalizer
  call on a module whose sample size exceeds \<open>num_tags\<close> raises ValueError (from the
  sampling); with a sample size of at most \<open>num_tags\<close>, equality included, at least one
  tag and well-shaped inputs the call returns.
\<close>

theorem sample_size_checked_at_invocation:
  "\<exists>self. CRF_init n_tags weight bias beam negs bf = Inr self \<and>
     num_tags self = n_tags \<and> neg_nums self = negs \<and>
     (n_tags < negs \<longrightarrow>
        compute_normalizer self perm emissions full_road_emb A_list msk numerator =
          Inl ValueError) \<and>
     (negs \<le> n_tags \<and> 0 < n_tags \<and> is_draw perm n_tags \<and> length numerator = B \<and>
      wf_batch self emissions full_road_emb A_list msk S B n_tags d \<longrightarrow>
        (\<exists>den. compute_normalizer self perm emissions full_road_emb A_list msk numerator =
           Inr den))"
proof -
  let ?self = "\<lparr>num_tags = n_tags, batch_first = bf, beam_size = beam, neg_nums = negs,
          W_weight = weight, W_bias = bias\<rparr>"
  have a: "CRF_init n_tags weight bias beam negs bf = Inr ?self"
    by (simp add: CRF_init_def)
  have b: "compute_normalizer ?self perm emissions full_road_emb A_list msk numerator =
          Inl ValueError" if "n_tags < negs"
    using that by (simp add: compute_normalizer_def random_choice_def)
  have c: "\<exists>den. compute_normalizer ?self perm emissions full_road_emb A_list msk numerator =
           Inr den"
    if "negs \<le> n_tags \<and> 0 < n_tags \<and> is_draw perm n_tags \<and> length numerator = B \<and>
      wf_batch ?self emissions full_road_emb A_list msk S B n_tags d"
    using compute_normalizer_value[of ?self emissions full_road_emb A_list msk S B n_tags d
        perm numerator] that
    by auto
  from a b c show ?thesis by auto
qed

theorem sample_size_checked_at_invocation_witness:
  "(\<exists>self. CRF_init 2 [[1]] [0] 5 3 True = Inr self \<and>
      compute_normalizer self [0, 1] [[[0, 1]]] emb2 eye2 [[True]] [0] = Inl ValueError) \<and>
   (\<exists>self den. CRF_init 2 [[1]] [0] 5 2 True = Inr self \<and>
      compute_normalizer self [0, 1] [[[0, 1]]] emb2 eye2 [[True]] [0] = Inr den)"
proof -
  have a: "\<exists>self. CRF_init 2 [[1]] [0] 5 3 True = Inr self \<and>
      compute_normalizer self [0, 1] [[[0, 1]]] emb2 eye2 [[True]] [0] = Inl ValueError"
    using sample_size_checked_at_invocation[of 2 "[[1]]" "[0]" 5 3 True "[0, 1]" "[[[0, 1]]]"
        emb2 eye2 "[[True]]" "[0]"]
    by auto
  obtain self where s: "CRF_init 2 [[1]] [0] 5 2 True = Inr self"
    and imp: "2 \<le> (2::nat) \<and> 0 < (2::nat) \<and> is_draw [0, 1] 2 \<and> length [0::real] = 1 \<and>
      wf_batch self [[[0, 1]]] emb2 eye2 [[True]] 1 1 2 1 \<longrightarrow>
        (\<exists>den. compute_normalizer self [0, 1] [[[0, 1]]] emb2 eye2 [[True]] [0] = Inr den)"
    using sample_size_checked_at_invocation[of 2 "[[1]]" "[0]" 5 2 True "[0, 1]" "[[[0, 1]]]"
        emb2 eye2 "[[True]]" "[0]" 1 1 1]
    by blast
  from s have "wf_batch self [[[0, 1]]] emb2 eye2 [[True]] 1 1 2 1"
    by (auto simp: CRF_init_def wf_batch_def wf_params_def cube_shape_def matrix_shape_def
        emb2_def eye2_def)
  moreover have "is_draw [0, 1] 2" by (simp add: is_draw_def)
  ultimately have "\<exists>den. compute_normalizer self [0, 1] [[[0, 1]]] emb2 eye2 [[True]] [0] = Inr den"
    using imp by simp
  with s a show ?thesis by blast
qed

section \<open>Dependence on the random draw\<close>


section \<open>Dependence on the random draw: what holds\<close>



section \<open>The candidates of a Viterbi step\<close>

text \<open>
  C2, as the claim states it: from step 1 on, the maximum of a Viterbi step ranges over
  a beam of road-graph neighbours of bounded size only.  With the identity as adjacency
  matrix (every tag adjacent to itself only) and \<open>beam_size = 1\<close>, the step records tag
  \<open>2\<close> as the predecessor of the tags \<open>0\<close> and \<open>1\<close>, which are not adjacent to it, and
  \<^verbatim>\<open>decode\<close> returns the path \<open>[2, 0]\<close>.
\<close>

theorem viterbi_beam_counterexample:
  "viterbi_step [[[0, 0, 10]], [[10, 0, 0]]] (transitions crf3 emb3 eye3) [[True], [True]] 1 1
     ([[0, 0, 10]], []) = Inr ([[20, 10, 11]], [[[2, 2, 2]]]) \<and>
   eye3 ! 2 ! 0 = 0 \<and> eye3 ! 2 ! 1 = 0 \<and> beam_size crf3 = 1 \<and>
   decode crf3 [[[0, 0, 10], [10, 0, 0]]] emb3 eye3 [[True, True]] = Inr [[2, 0]]"
proof -
  have a: "viterbi_step [[[0, 0, 10]], [[10, 0, 0]]] eye3 [[True], [True]] 1 1
     ([[0, 0, 10]], []) = Inr ([[20, 10, 11]], [[[2, 2, 2]]])"
    unfolding eye3_def by code_simp
  have b: "decode crf3 [[[0, 0, 10], [10, 0, 0]]] emb3 eye3 [[True, True]] = Inr [[2, 0]]"
    unfolding crf3_def emb3_def eye3_def by code_simp
  from a b show ?thesis
    unfolding transitions_crf3 by (simp add: eye3_def crf3_def)
qed

section \<open>The candidates of a Viterbi step: what holds\<close>

text \<open>
  C2, amended.  At every step \<open>i \<ge> 1\<close> the step returns, and for every batch element and
  every next tag \<open>t\<close> the recorded predecessor is a tag of the full tag space whose
  candidate score is maximal among all \<open>n\<close> tags, adjacent or not; where the mask is true,
  the new score is that maximum.  The adjacency matrix enters through the transition
  energies only, and \<open>beam_size\<close> is never read: changing it changes no result.
\<close>

theorem viterbi_step_full_tag_space:
  assumes "cube_shape emissions S B n" and "matrix_shape msk S B" and "matrix_shape trns n n"
    and "0 < n" and "i < S" and "matrix_shape score B n"
    and "b < B" and "t < n"
  shows "\<exists>score' indices.
     viterbi_step emissions trns msk B i (score, history) = Inr (score', history @ [indices]) \<and>
     indices ! b ! t < n \<and>
     (\<forall>k<n. score ! b ! k + trns ! k ! t + emissions ! i ! b ! t \<le>
        score ! b ! (indices ! b ! t) + trns ! (indices ! b ! t) ! t + emissions ! i ! b ! t) \<and>
     (msk ! i ! b \<longrightarrow> score' ! b ! t =
        score ! b ! (indices ! b ! t) + trns ! (indices ! b ! t) ! t + emissions ! i ! b ! t) \<and>
     viterbi_decode (self\<lparr>beam_size := bs\<rparr>) emissions full_road_emb A_list msk =
       viterbi_decode self emissions full_road_emb A_list msk"
proof -
  have beam: "viterbi_decode (self\<lparr>beam_size := bs\<rparr>) emissions full_road_emb A_list msk =
       viterbi_decode self emissions full_road_emb A_list msk"
    by (simp add: viterbi_decode_def transitions_def linear_def)
  let ?c = "cand (score ! b) trns (emissions ! i ! b) t"
  let ?j = "snd (max_index ?c)"
  from assms(1,5,7) have le: "length (emissions ! i ! b) = n"
    by (auto simp: cube_shape_def matrix_shape_def list_all_length)
  from assms(6,7) have ls: "length (score ! b) = n" by (simp add: matrix_shapeD)
  have lc: "length ?c = n" using ls by (simp add: cand_def)
  with assms(4) have "?c \<noteq> []" by auto
  from max_index_conj[OF this] lc
  have j: "?j < n" and v: "?c ! ?j = fst (max_index ?c)" and m: "\<forall>x \<in> set ?c. x \<le> ?c ! ?j"
    by simp_all
  have ck: "?c ! k = score ! b ! k + trns ! k ! t + emissions ! i ! b ! t" if "k < n" for k
    using that ls by (simp add: cand_def)
  have mk: "score ! b ! k + trns ! k ! t + emissions ! i ! b ! t \<le>
      score ! b ! ?j + trns ! ?j ! t + emissions ! i ! b ! t" if "k < n" for k
  proof -
    from that lc have "?c ! k \<in> set ?c" by simp
    with m have "?c ! k \<le> ?c ! ?j" by blast
    with ck[OF that] ck[OF j] show ?thesis by simp
  qed
  have row: "viterbi_row (score ! b) trns (emissions ! i ! b) ! t = max_index ?c"
    using le assms(8) by (simp add: viterbi_row_def)
  from viterbi_step_value[OF assms(1-6), of history] assms(7,8) le j mk v ck[OF j] row beam
  show ?thesis by simp
qed

theorem viterbi_step_full_tag_space_witness:
  "cube_shape [[[0, 0, 10]], [[10, 0, 0::real]]] 2 1 3 \<and> matrix_shape [[True], [True]] 2 1 \<and>
   matrix_shape eye3 3 3 \<and> matrix_shape [[0, 0, 10::real]] 1 3 \<and>
   (\<exists>score' indices.
      viterbi_step [[[0, 0, 10]], [[10, 0, 0]]] eye3 [[True], [True]] 1 1 ([[0, 0, 10]], []) =
        Inr (score', [indices]) \<and>
      indices ! 0 ! 0 < 3 \<and>
      [0, 0, 10] ! 2 + eye3 ! 2 ! 0 + 10 \<le>
        [0, 0, 10] ! (indices ! 0 ! 0) + eye3 ! (indices ! 0 ! 0) ! 0 + 10 \<and>
      score' ! 0 ! 0 = [0, 0, 10] ! (indices ! 0 ! 0) + eye3 ! (indices ! 0 ! 0) ! 0 + 10) \<and>
   viterbi_decode (crf3\<lparr>beam_size := 7\<rparr>) [[[0, 0, 10]], [[10, 0, 0]]] emb3 eye3
     [[True], [True]] =
   viterbi_decode crf3 [[[0, 0, 10]], [[10, 0, 0]]] emb3 eye3 [[True], [True]]"
proof -
  have a: "cube_shape [[[0, 0, 10]], [[10, 0, 0::real]]] 2 1 3"
    and b: "matrix_shape [[True], [True]] 2 1"
    and c: "matrix_shape eye3 3 3"
    and d: "matrix_shape [[0, 0, 10::real]] 1 3"
    by (simp_all add: cube_shape_def matrix_shape_def eye3_def)
  from viterbi_step_full_tag_space[OF a b c _ _ d, where i = 1 and b = 0 and t = 0
      and history = "[]" and self = crf3 and bs = 7 and full_road_emb = emb3 and A_list = eye3]
  obtain score' indices where
    s: "viterbi_step [[[0, 0, 10]], [[10, 0, 0]]] eye3 [[True], [True]] 1 1 ([[0, 0, 10]], []) =
        Inr (score', [indices])"
    and i: "indices ! 0 ! 0 < 3"
    and m: "\<forall>k<3. [[0, 0, 10]] ! 0 ! k + eye3 ! k ! 0 + [[[0, 0, 10]], [[10, 0, 0]]] ! 1 ! 0 ! 0 \<le>
        [[0, 0, 10]] ! 0 ! (indices ! 0 ! 0) + eye3 ! (indices ! 0 ! 0) ! 0 +
        [[[0, 0, 10]], [[10, 0, 0]]] ! 1 ! 0 ! 0"
    and v: "[[True], [True]] ! 1 ! 0 \<longrightarrow> score' ! 0 ! 0 =
        [[0, 0, 10]] ! 0 ! (indices ! 0 ! 0) + eye3 ! (indices ! 0 ! 0) ! 0 +
        [[[0, 0, 10]], [[10, 0, 0]]] ! 1 ! 0 ! 0"
    and w: "viterbi_decode (crf3\<lparr>beam_size := 7\<rparr>) [[[0, 0, 10]], [[10, 0, 0]]] emb3 eye3
        [[True], [True]] =
      viterbi_decode crf3 [[[0, 0, 10]], [[10, 0, 0]]] emb3 eye3 [[True], [True]]"
    by auto
  from m have "[0, 0, 10] ! 2 + eye3 ! 2 ! 0 + 10 \<le>
        [0, 0, 10] ! (indices ! 0 ! 0) + eye3 ! (indices ! 0 ! 0) ! 0 + (10::real)"
    by (auto dest: spec[of _ 2])
  moreover from v have "score' ! 0 ! 0 =
      [0, 0, 10] ! (indices ! 0 ! 0) + eye3 ! (indices ! 0 ! 0) ! 0 + 10"
    by simp
  ultimately show ?thesis
    using a b c d s i w by blast
qed

section \<open>A masked Viterbi step\<close>

text \<open>
  C3, as the claim states it: at a masked step both the score vector and the recorded
  backpointers are those of the previous step.  On a sequence of three steps whose last
  one is masked (transition energies all \<open>0\<close>), the score stays \<open>[6, 1]\<close> but the
  backpointers recorded for the masked step are \<open>[0, 0]\<close>, not the \<open>[1, 1]\<close> of the step
  before.
\<close>

theorem masked_backpointers_counterexample:
  "viterbi_loop [[[0, 1]], [[5, 0]], [[0, 0]]] [[0, 0], [0, 0]] [[True], [True], [False]] 1
     [1..<3] ([[0, 1]], []) = Inr ([[6, 1]], [[[1, 1]], [[0, 0]]]) \<and>
   \<not> [[True], [True], [False]] ! 2 ! 0"
proof -
  have "viterbi_loop [[[0, 1]], [[5, 0]], [[0, 0]]] [[0, 0], [0, 0]] [[True], [True], [False]] 1
     [1..<3] ([[0, 1]], []) = Inr ([[6, 1]], [[[1, 1]], [[0, 0]]])"
    by code_simp
  then show ?thesis by simp
qed

section \<open>A masked Viterbi step: what holds\<close>

text \<open>
  C3, amended.  At a step whose mask value is false for batch element \<open>b\<close>, the step
  returns, the score vector of \<open>b\<close> is carried forward unchanged, and the history gets one
  more entry, whose row for \<open>b\<close> holds the arg-max indices computed at this step from
  the carried score.
\<close>

theorem masked_step_keeps_score:
  assumes "cube_shape emissions S B n" and "matrix_shape msk S B" and "matrix_shape trns n n"
    and "0 < n" and "i < S" and "matrix_shape score B n"
    and "b < B" and "\<not> msk ! i ! b"
  shows "\<exists>score' indices.
     viterbi_step emissions trns msk B i (score, history) = Inr (score', history @ [indices]) \<and>
     score' ! b = score ! b \<and>
     indices ! b =
       map (\<lambda>t. snd (max_index (cand (score ! b) trns (emissions ! i ! b) t))) [0..<n]"
proof -
  from assms(1,5,7) have "length (emissions ! i ! b) = n"
    by (auto simp: cube_shape_def matrix_shape_def list_all_length)
  then have "map snd (viterbi_row (score ! b) trns (emissions ! i ! b)) =
      map (\<lambda>t. snd (max_index (cand (score ! b) trns (emissions ! i ! b) t))) [0..<n]"
    by (simp add: viterbi_row_def)
  with viterbi_step_value[OF assms(1-6), of history] assms(7,8) show ?thesis
    by simp
qed

theorem masked_step_keeps_score_witness:
  "cube_shape [[[0, 1]], [[5, 0]], [[0, 0::real]]] 3 1 2 \<and>
   matrix_shape [[True], [True], [False]] 3 1 \<and>
   matrix_shape [[0, 0], [0, 0::real]] 2 2 \<and> matrix_shape [[6, 1::real]] 1 2 \<and>
   \<not> [[True], [True], [False]] ! 2 ! 0 \<and>
   (\<exists>score' indices.
      viterbi_step [[[0, 1]], [[5, 0]], [[0, 0]]] [[0, 0], [0, 0]] [[True], [True], [False]] 1 2
        ([[6, 1]], [[[1, 1]]]) = Inr (score', [[[1, 1]]] @ [indices]) \<and>
      score' ! 0 = [6, 1] \<and> indices ! 0 = [0, 0])"
proof -
  have a: "cube_shape [[[0, 1]], [[5, 0]], [[0, 0::real]]] 3 1 2"
    and b: "matrix_shape [[True], [True], [False]] 3 1"
    and c: "matrix_shape [[0, 0], [0, 0::real]] 2 2"
    and d: "matrix_shape [[6, 1::real]] 1 2"
    by (simp_all add: cube_shape_def matrix_shape_def)
  have m: "\<not> [[True], [True], [False]] ! 2 ! 0" by simp
  have v: "map (\<lambda>t. snd (max_index (cand [6, 1] [[0, 0], [0, 0]] [0, 0] t))) [0..<2] = [0, 0]"
    by code_simp
  from masked_step_keeps_score[OF a b c _ _ d _ m, where history = "[[[1, 1]]]"] v
  have "\<exists>score' indices.
      viterbi_step [[[0, 1]], [[5, 0]], [[0, 0]]] [[0, 0], [0, 0]] [[True], [True], [False]] 1 2
        ([[6, 1]], [[[1, 1]]]) = Inr (score', [[[1, 1]]] @ [indices]) \<and>
      score' ! 0 = [6, 1] \<and> indices ! 0 = [0, 0]"
    by simp
  with a b c d m show ?thesis by blast
qed

section \<open>Padding and the score, padding and the decoded path\<close>

text \<open>
  C4, as the claim states it: under a prefix mask, changing emissions and gold tags at
  masked positions leaves the scorer's output unchanged.  The scorer looks the gold tags
  of a step up before it applies the mask: with the gold tag at the one masked position
  changed from \<open>1\<close> to \<open>3\<close> (the number of tags), and nothing else changed, the scorer
  raises IndexError where it returned \<open>[15, 10]\<close>.
\<close>

theorem padding_tag_out_of_range_counterexample:
  "\<not> entry crf3 msk_ex 1 1 \<and> prefix_mask crf3 msk_ex 2 0 \<and> prefix_mask crf3 msk_ex 2 1 \<and>
   entry crf3 tags_ex 0 0 = entry crf3 tags_ex3 0 0 \<and>
   entry crf3 tags_ex 0 1 = entry crf3 tags_ex3 0 1 \<and>
   entry crf3 tags_ex 1 0 = entry crf3 tags_ex3 1 0 \<and>
   compute_score crf3 (time_major crf3 em_ex) (time_major crf3 tags_ex) emb3 eye3
     (time_major crf3 msk_ex) = Inr [15, 10] \<and>
   compute_score crf3 (time_major crf3 em_ex) (time_major crf3 tags_ex3) emb3 eye3
     (time_major crf3 msk_ex) = Inl IndexError"
proof -
  have a: "\<not> entry crf3 msk_ex 1 1" "entry crf3 tags_ex 0 0 = entry crf3 tags_ex3 0 0"
    "entry crf3 tags_ex 0 1 = entry crf3 tags_ex3 0 1"
    "entry crf3 tags_ex 1 0 = entry crf3 tags_ex3 1 0"
    by (simp_all add: entry_def crf3_def msk_ex_def tags_ex_def tags_ex3_def)
  have p: "prefix_mask crf3 msk_ex 2 0" "prefix_mask crf3 msk_ex 2 1"
    unfolding crf3_def msk_ex_def by code_simp+
  have s1: "compute_score crf3 (time_major crf3 em_ex) (time_major crf3 tags_ex) emb3 eye3
     (time_major crf3 msk_ex) = Inr [15, 10]"
    unfolding crf3_def emb3_def eye3_def em_ex_def tags_ex_def msk_ex_def by code_simp
  have s2: "compute_score crf3 (time_major crf3 em_ex) (time_major crf3 tags_ex3) emb3 eye3
     (time_major crf3 msk_ex) = Inl IndexError"
    unfolding crf3_def emb3_def eye3_def em_ex_def tags_ex3_def msk_ex_def by code_simp
  from a p s1 s2 show ?thesis by simp
qed

section \<open>Padding and the score, padding and the decoded path: what holds\<close>

text \<open>
  C4, amended.  For well-shaped inputs whose mask is, for every batch element, a prefix of
  true entries (at least one) followed by false ones, and whose gold tags are valid
  indices everywhere (within \<open>[-n, n)\<close>, as a padding tag \<open>- 1\<close> is): two runs whose
  emissions and gold tags agree at every valid position both return, with the same scores
  from the scorer and the same tag sequences from \<^verbatim>\<open>decode\<close>.
\<close>

theorem padding_does_not_influence:
  assumes "wf_input self em1 full_road_emb A_list msk S B n d"
    and "wf_input self em2 full_road_emb A_list msk S B n d"
    and "wf_input_index_tags self tags1 S B n" and "wf_input_index_tags self tags2 S B n"
    and "\<forall>b<B. prefix_mask self msk S b"
    and "\<forall>b<B. \<forall>i<S. entry self msk b i \<longrightarrow>
           entry self em1 b i = entry self em2 b i \<and>
           entry self tags1 b i = entry self tags2 b i"
  shows "\<exists>score res.
     compute_score self (time_major self em1) (time_major self tags1) full_road_emb A_list
       (time_major self msk) = Inr score \<and>
     compute_score self (time_major self em2) (time_major self tags2) full_road_emb A_list
       (time_major self msk) = Inr score \<and>
     decode self em1 full_road_emb A_list msk = Inr res \<and>
     decode self em2 full_road_emb A_list msk = Inr res"
proof -
  let ?E1 = "time_major self em1" and ?E2 = "time_major self em2"
  let ?T1 = "time_major self tags1" and ?T2 = "time_major self tags2"
  let ?M = "time_major self msk" and ?T = "transitions self full_road_emb A_list"
  from assms(1) have S: "0 < S" and B: "0 < B" by (simp_all add: wf_input_def)
  have n: "0 < n" using assms(3) S B by (rule index_tags_pos)
  have wb1: "wf_batch self ?E1 full_road_emb A_list ?M S B n d"
    and wb2: "wf_batch self ?E2 full_road_emb A_list ?M S B n d"
    using assms(1,2) by (simp_all add: wf_input_batch)
  have t1: "matrix_shape ?T1 S B" "list_all (list_all (index_ok n)) ?T1"
    using assms(3) B by (rule index_tags_time_major)+
  have t2: "matrix_shape ?T2 S B" "list_all (list_all (index_ok n)) ?T2"
    using assms(4) B by (rule index_tags_time_major)+
  have valid: "\<exists>L. 0 < L \<and> L \<le> S \<and> (\<forall>i<S. ?M ! i ! b \<longleftrightarrow> i < L) \<and>
      seq_ends ?M ! b = int L - 1" if b: "b < B" for b
  proof -
    from assms(5) b have "prefix_mask self msk S b" by simp
    then obtain L where L: "0 < L" "L \<le> S"
      and pre: "\<forall>i<S. entry self msk b i \<longleftrightarrow> i < L"
      by (rule prefix_maskD)
    from seq_ends_prefix[OF assms(1) b L pre] L show ?thesis by blast
  qed
  have ag: "\<forall>b<B. \<forall>i<S. ?M ! i ! b \<longrightarrow>
      ?E1 ! i ! b = ?E2 ! i ! b \<and> ?T1 ! i ! b = ?T2 ! i ! b"
    using assms(6) wf_input_entry[OF assms(1)] wf_input_entry(1)[OF assms(2)]
      index_tags_entry[OF assms(3)] index_tags_entry[OF assms(4)]
    by simp
  have pre: "\<forall>b<B. \<exists>L. 0 < L \<and> L \<le> S \<and> (\<forall>i<S. ?M ! i ! b \<longleftrightarrow> i < L)"
    using valid by blast
  from score_agree_time_major[OF wb1 wb2 t1 t2 pre ag] obtain sc where
    sc: "compute_score self ?E1 ?T1 full_road_emb A_list ?M = Inr sc"
      "compute_score self ?E2 ?T2 full_road_emb A_list ?M = Inr sc"
    by blast
  have key: "decode_elem (\<lambda>i. ?E1 ! i ! b) ?T (\<lambda>i. ?M ! i ! b) S (seq_ends ?M ! b) =
        decode_elem (\<lambda>i. ?E2 ! i ! b) ?T (\<lambda>i. ?M ! i ! b) S (seq_ends ?M ! b)"
    if b: "b < B" for b
  proof -
    from valid[OF b] obtain L where L: "0 < L" "L \<le> S"
      and pm: "\<forall>i<S. ?M ! i ! b \<longleftrightarrow> i < L" and se: "seq_ends ?M ! b = int L - 1"
      by blast
    have "\<forall>i<S. ?M ! i ! b \<longrightarrow> ?E1 ! i ! b = ?E2 ! i ! b" using ag b by simp
    with L pm have "decode_elem (\<lambda>i. ?E1 ! i ! b) ?T (\<lambda>i. ?M ! i ! b) S (int L - 1) =
        decode_elem (\<lambda>i. ?E2 ! i ! b) ?T (\<lambda>i. ?M ! i ! b) S (int L - 1)"
      by (rule decode_elem_agree)
    with se show ?thesis by simp
  qed
  have d1: "decode self em1 full_road_emb A_list msk =
      Inr (map (\<lambda>b. decode_elem (\<lambda>i. ?E1 ! i ! b) ?T (\<lambda>i. ?M ! i ! b) S (seq_ends ?M ! b))
             [0..<B])"
    using assms(1) n by (rule decode_value)
  have d2: "decode self em2 full_road_emb A_list msk =
      Inr (map (\<lambda>b. decode_elem (\<lambda>i. ?E2 ! i ! b) ?T (\<lambda>i. ?M ! i ! b) S (seq_ends ?M ! b))
             [0..<B])"
    using assms(2) n by (rule decode_value)
  have de: "map (\<lambda>b. decode_elem (\<lambda>i. ?E1 ! i ! b) ?T (\<lambda>i. ?M ! i ! b) S (seq_ends ?M ! b))
             [0..<B] =
      map (\<lambda>b. decode_elem (\<lambda>i. ?E2 ! i ! b) ?T (\<lambda>i. ?M ! i ! b) S (seq_ends ?M ! b)) [0..<B]"
    using key by (intro map_cong refl) simp
  from sc d1 d2 de show ?thesis by simp
qed

theorem padding_does_not_influence_witness:
  "wf_input crf3 em_ex emb3 eye3 msk_ex 2 2 3 1 \<and> wf_input crf3 em_ex2 emb3 eye3 msk_ex 2 2 3 1 \<and>
   wf_input_index_tags crf3 tags_ex 2 2 3 \<and> wf_input_index_tags crf3 tags_ex4 2 2 3 \<and>
   prefix_mask crf3 msk_ex 2 0 \<and> prefix_mask crf3 msk_ex 2 1 \<and>
   \<not> entry crf3 msk_ex 1 1 \<and> entry crf3 em_ex 1 1 \<noteq> entry crf3 em_ex2 1 1 \<and>
   entry crf3 tags_ex 1 1 = 1 \<and> entry crf3 tags_ex4 1 1 = - 1 \<and>
   compute_score crf3 (time_major crf3 em_ex2) (time_major crf3 tags_ex4) emb3 eye3
     (time_major crf3 msk_ex) = Inr [15, 10] \<and>
   decode crf3 em_ex2 emb3 eye3 msk_ex = Inr [[2, 1], [2, - 1]]"
proof -
  have a: "wf_input crf3 em_ex emb3 eye3 msk_ex 2 2 3 1"
    and b: "wf_input crf3 em_ex2 emb3 eye3 msk_ex 2 2 3 1"
    using wf_crf3
    by (simp_all add: wf_input_def cube_shape_def matrix_shape_def crf3_def em_ex_def
        em_ex2_def msk_ex_def)
  have c: "wf_input_index_tags crf3 tags_ex 2 2 3"
    and d: "wf_input_index_tags crf3 tags_ex4 2 2 3"
    by (simp_all add: wf_input_index_tags_def matrix_shape_def index_ok_def crf3_def
        tags_ex_def tags_ex4_def)
  have p0: "prefix_mask crf3 msk_ex 2 0" and p1: "prefix_mask crf3 msk_ex 2 1"
    unfolding crf3_def msk_ex_def by code_simp+
  then have p: "\<forall>b<2. prefix_mask crf3 msk_ex 2 b"
    by (auto simp: less_2_cases_iff)
  have g: "\<forall>b<2. \<forall>i<2. entry crf3 msk_ex b i \<longrightarrow>
           entry crf3 em_ex b i = entry crf3 em_ex2 b i \<and>
           entry crf3 tags_ex b i = entry crf3 tags_ex4 b i"
    by (auto simp: less_2_cases_iff entry_def crf3_def msk_ex_def em_ex_def em_ex2_def
        tags_ex_def tags_ex4_def)
  have diff: "\<not> entry crf3 msk_ex 1 1" "entry crf3 em_ex 1 1 \<noteq> entry crf3 em_ex2 1 1"
    "entry crf3 tags_ex 1 1 = 1" "entry crf3 tags_ex4 1 1 = - 1"
    by (simp_all add: entry_def crf3_def msk_ex_def em_ex_def em_ex2_def tags_ex_def
        tags_ex4_def)
  have s1: "compute_score crf3 (time_major crf3 em_ex) (time_major crf3 tags_ex) emb3 eye3
     (time_major crf3 msk_ex) = Inr [15, 10]"
    unfolding crf3_def emb3_def eye3_def em_ex_def tags_ex_def msk_ex_def by code_simp
  have d1: "decode crf3 em_ex emb3 eye3 msk_ex = Inr [[2, 1], [2, - 1]]"
    unfolding crf3_def emb3_def eye3_def em_ex_def msk_ex_def by code_simp
  from padding_does_not_influence[OF a b c d p g] s1 d1
  have "compute_score crf3 (time_major crf3 em_ex2) (time_major crf3 tags_ex4) emb3 eye3
     (time_major crf3 msk_ex) = Inr [15, 10] \<and>
   decode crf3 em_ex2 emb3 eye3 msk_ex = Inr [[2, 1], [2, - 1]]"
    by auto
  with a b c d p0 p1 diff show ?thesis by blast
qed

section \<open>Decoding an element of valid length one\<close>

text \<open>
  C10.  For a batch element \<open>b\<close> whose mask is true at step \<open>0\<close> only, \<^verbatim>\<open>decode\<close>
  returns, and the sequence of \<open>b\<close> has the shared length \<open>S\<close>: first the tag the
  maximum over the step-0 emissions of \<open>b\<close> returns, which attains the maximum over all
  tags, then \<open>- 1\<close> throughout.  The sequence is a function of the step-0 emissions alone;
  embeddings and adjacency do not occur in it.
\<close>

theorem decode_valid_length_one:
  assumes "wf_input self emissions full_road_emb A_list msk S B n d"
    and "0 < n" and "b < B"
    and "\<forall>i<S. entry self msk b i \<longleftrightarrow> i = 0"
  shows "\<exists>res t. decode self emissions full_road_emb A_list msk = Inr res \<and> length res = B \<and>
     res ! b = int t # replicate (S - 1) (- 1) \<and> length (res ! b) = S \<and>
     t = snd (max_index (entry self emissions b 0)) \<and> t < n \<and>
     (\<forall>k<n. entry self emissions b 0 ! k \<le> entry self emissions b 0 ! t)"
proof -
  let ?E = "time_major self emissions" and ?M = "time_major self msk"
  let ?t = "snd (max_index (entry self emissions b 0))"
  from assms(1) have S: "0 < S" by (simp add: wf_input_def)
  have pre: "\<forall>i<S. entry self msk b i \<longleftrightarrow> i < 1"
    using assms(4) by simp
  have L: "0 < (1::nat)" "1 \<le> S" using S by simp_all
  have se: "seq_ends ?M ! b = int 1 - 1" and pm: "\<forall>i<S. ?M ! i ! b \<longleftrightarrow> i < 1"
    using seq_ends_prefix[OF assms(1,3) L pre] by blast+
  have e0: "?E ! 0 ! b = entry self emissions b 0"
    using assms(1,3) S by (rule wf_input_entry)
  have len0: "length (?E ! 0 ! b) = n"
    using wf_input_batch[OF assms(1)] assms(3) S
    by (auto simp: wf_batch_def cube_shape_def matrix_shape_def list_all_length)
  have "decode_elem (\<lambda>i. ?E ! i ! b) (transitions self full_road_emb A_list) (\<lambda>i. ?M ! i ! b) S
        (seq_ends ?M ! b) = int ?t # replicate (S - 1) (- 1)"
    unfolding se using decode_elem_prefix[OF L pm, of "\<lambda>i. ?E ! i ! b"] e0
    by (simp add: Let_def)
  then have r: "map (\<lambda>b. decode_elem (\<lambda>i. ?E ! i ! b) (transitions self full_road_emb A_list)
        (\<lambda>i. ?M ! i ! b) S (seq_ends ?M ! b)) [0..<B] ! b = int ?t # replicate (S - 1) (- 1)"
    using assms(3) by simp
  from len0 e0 assms(2) have ne: "entry self emissions b 0 \<noteq> []" by auto
  from max_index_conj[OF ne] len0 e0
  have t: "?t < n" "\<forall>k<n. entry self emissions b 0 ! k \<le> entry self emissions b 0 ! ?t"
    by auto
  from decode_value[OF assms(1,2)] r t S show ?thesis
    by auto
qed

theorem decode_valid_length_one_witness:
  "wf_input crf3 em_ex emb3 eye3 msk_ex 2 2 3 1 \<and>
   entry crf3 msk_ex 1 0 \<and> \<not> entry crf3 msk_ex 1 1 \<and>
   (\<exists>res. decode crf3 em_ex emb3 eye3 msk_ex = Inr res \<and> length res = 2 \<and>
      res ! 1 = [2, - 1])"
proof -
  have a: "wf_input crf3 em_ex emb3 eye3 msk_ex 2 2 3 1"
    using wf_crf3
    by (simp add: wf_input_def cube_shape_def matrix_shape_def crf3_def em_ex_def msk_ex_def)
  have m: "entry crf3 msk_ex 1 0" "\<not> entry crf3 msk_ex 1 1"
    by (simp_all add: entry_def crf3_def msk_ex_def)
  then have h: "\<forall>i<2. entry crf3 msk_ex 1 i \<longleftrightarrow> i = 0"
    by (auto simp: less_2_cases_iff)
  have t: "snd (max_index (entry crf3 em_ex 1 0)) = 2"
    by (simp add: entry_def crf3_def em_ex_def)
  from decode_valid_length_one[OF a _ _ h] t
  have "\<exists>res. decode crf3 em_ex emb3 eye3 msk_ex = Inr res \<and> length res = 2 \<and>
      res ! 1 = [2, - 1]"
    by auto
  with a m show ?thesis by blast
qed

end
